theory Spec2Isabelle
  imports Main "HOL-Library.AList"
begin

section \<open>The data model of \<open>arachne/model.py\<close>\<close>

text \<open>
  A \<open>Node\<close> is a dataclass with the fields \<open>content\<close>, \<open>metadata\<close> (a dict from
  strings to values) and \<open>ancestry\<close> (a list of lists of node identifiers).
  Identifiers are the strings returned by \<open>str(uuid4())\<close>. The content is \<open>Any\<close> in the
  base class, hence a type variable; \<open>StringDirectedHypergraph\<close> uses it at type
  \<open>string\<close>.

  \<open>DirectedHypergraph.nodes\<close> is a Python dict, which keeps insertion order: it is an
  association list with distinct keys, read with \<open>map_of\<close>, written with
  \<open>AList.update\<close> (an existing key keeps its place, a new key goes to the end) and
  deleted from with \<open>AList.delete\<close>. \<open>DirectedHypergraph.edges\<close> is a list of
  hyperedges, each a list of identifiers.

  Nodes are held by value: every identifier owns its \<open>Node\<close> object and that
  object's ancestry list, as is the case for nodes built by \<open>Node(...)\<close> and stored
  once by \<open>add_node\<close>.
\<close>

record ('c, 'm) node =
  content :: 'c
  metadata :: "(string \<times> 'm) list"
  ancestry :: "string list list"

record ('c, 'm) graph =
  nodes :: "(string \<times> ('c, 'm) node) list"
  edges :: "string list list"

text \<open>
  The exceptions the code can raise: a missing dict key, an index out of range, an
  operation on \<open>None\<close>, and the interpreter's bound on the depth of recursion.
\<close>

datatype error = KeyError | IndexError | TypeError | RecursionError

text \<open>\<open>Node(content=c)\<close>: the two other fields take their defaults, \<open>{}\<close> and \<open>[]\<close>.\<close>

definition Node :: "'c \<Rightarrow> ('c, 'm) node" where
  "Node c = \<lparr>content = c, metadata = [], ancestry = []\<rparr>"

text \<open>\<open>DirectedHypergraph()\<close>, with \<open>create_root=False\<close>.\<close>

definition empty_graph :: "('c, 'm) graph" where
  "empty_graph = \<lparr>nodes = [], edges = []\<rparr>"

text \<open>The keys of the node dict, in the dict's order.\<close>

definition node_ids :: "('c, 'm) graph \<Rightarrow> string list" where
  "node_ids g = map fst (nodes g)"

text \<open>
  The ancestry list of a stored node, as the object the code reaches through
  \<open>self.nodes[i].ancestry\<close>; the value for an identifier that is not stored is never
  used by a run that does not raise.
\<close>

definition ancestry_of :: "('c, 'm) graph \<Rightarrow> string \<Rightarrow> string list list" where
  "ancestry_of g i = (case map_of (nodes g) i of None \<Rightarrow> [] | Some n \<Rightarrow> ancestry n)"

text \<open>The content and the metadata of a stored node; \<open>None\<close> when it is not stored.\<close>

definition content_of :: "('c, 'm) graph \<Rightarrow> string \<Rightarrow> 'c option" where
  "content_of g i = map_option content (map_of (nodes g) i)"

definition metadata_of :: "('c, 'm) graph \<Rightarrow> string \<Rightarrow> (string \<times> 'm) list option" where
  "metadata_of g i = map_option metadata (map_of (nodes g) i)"

section \<open>Structural mutation\<close>

text \<open>
  \<open>add_node\<close>: the first argument is the identifier that \<open>str(uuid4())\<close> returns in
  this call.
\<close>

definition add_node :: "string \<Rightarrow> ('c, 'm) node \<Rightarrow> ('c, 'm) graph \<Rightarrow> ('c, 'm) graph" where
  "add_node node_id n g = g\<lparr>nodes := AList.update node_id n (nodes g)\<rparr>"

text \<open>\<open>self.nodes[i].ancestry.append(p)\<close>: a \<open>KeyError\<close> when \<open>i\<close> is not stored.\<close>

definition append_ancestry ::
  "string \<Rightarrow> string list \<Rightarrow> ('c, 'm) graph \<Rightarrow> error + ('c, 'm) graph" where
  "append_ancestry i p g =
     (case map_of (nodes g) i of
        None \<Rightarrow> Inl KeyError
      | Some n \<Rightarrow> Inr (g\<lparr>nodes := AList.update i (n\<lparr>ancestry := ancestry n @ [p]\<rparr>) (nodes g)\<rparr>))"

text \<open>
  The loop \<open>for i in range(1, len(edge)-1)\<close> of \<open>add_edge\<close>, over the list of its
  indices; \<open>edge[:i][::-1]\<close> is \<open>rev (take i edge)\<close>.
\<close>

fun add_edge_loop ::
  "string list \<Rightarrow> nat list \<Rightarrow> ('c, 'm) graph \<Rightarrow> error + ('c, 'm) graph" where
  "add_edge_loop edge [] g = Inr g"
| "add_edge_loop edge (i # is) g =
     (case append_ancestry (edge ! i) (rev (take i edge)) g of
        Inl e \<Rightarrow> Inl e
      | Inr g' \<Rightarrow> add_edge_loop edge is g')"

text \<open>
  \<open>add_edge\<close>: \<open>edge[-1]\<close> raises \<open>IndexError\<close> on the empty list, after the (empty)
  loop; \<open>edge[:-1][::-1]\<close> is \<open>rev (butlast edge)\<close>.
\<close>

definition add_edge :: "string list \<Rightarrow> ('c, 'm) graph \<Rightarrow> error + ('c, 'm) graph" where
  "add_edge edge g =
     (case add_edge_loop edge [1 ..< length edge - 1] (g\<lparr>edges := edges g @ [edge]\<rparr>) of
        Inl e \<Rightarrow> Inl e
      | Inr g' \<Rightarrow>
          if edge = [] then Inl IndexError
          else append_ancestry (last edge) (rev (butlast edge)) g')"

text \<open>
  \<open>if node_id in self.nodes: self.nodes[node_id].ancestry = []\<close>, the body of the loop
  of \<open>remove_edge\<close>.
\<close>

definition clear_ancestry :: "string \<Rightarrow> ('c, 'm) graph \<Rightarrow> ('c, 'm) graph" where
  "clear_ancestry i g =
     (case map_of (nodes g) i of
        None \<Rightarrow> g
      | Some n \<Rightarrow> g\<lparr>nodes := AList.update i (n\<lparr>ancestry := []\<rparr>) (nodes g)\<rparr>)"

text \<open>
  \<open>remove_edge\<close>: \<open>list.remove\<close> deletes the first value-equal element, and the guard
  \<open>edge in self.edges\<close> makes the absent case a no-op, which is \<open>remove1\<close>;
  \<open>edge[1:]\<close> is \<open>tl edge\<close>, also on the empty list.
\<close>

definition remove_edge :: "string list \<Rightarrow> ('c, 'm) graph \<Rightarrow> ('c, 'm) graph" where
  "remove_edge edge g = fold clear_ancestry (tl edge) (g\<lparr>edges := remove1 edge (edges g)\<rparr>)"

text \<open>
  \<open>remove_node\<close>: the list \<open>edges_to_remove\<close> is collected from \<open>self.edges\<close> after the
  node is deleted and before any edge is removed.
\<close>

definition remove_node :: "string \<Rightarrow> ('c, 'm) graph \<Rightarrow> ('c, 'm) graph" where
  "remove_node node_id g =
     (if node_id \<in> set (node_ids g)
      then fold remove_edge (filter (\<lambda>edge. node_id \<in> set edge) (edges g))
             (g\<lparr>nodes := AList.delete node_id (nodes g)\<rparr>)
      else g)"

section \<open>Queries\<close>

definition get_roots :: "('c, 'm) graph \<Rightarrow> string list" where
  "get_roots g = map fst (filter (\<lambda>(i, n). length (ancestry n) = 0) (nodes g))"

text \<open>
  \<open>get_children\<close>: \<open>edge[0]\<close> raises \<open>IndexError\<close> on an empty edge, and \<open>edge[1]\<close> on
  an edge of length one whose only element is \<open>node_id\<close>.
\<close>

fun get_children_loop :: "string \<Rightarrow> string list list \<Rightarrow> error + string list" where
  "get_children_loop node_id [] = Inr []"
| "get_children_loop node_id ([] # es) = Inl IndexError"
| "get_children_loop node_id ([a] # es) =
     (if a = node_id then Inl IndexError else get_children_loop node_id es)"
| "get_children_loop node_id ((a # b # rest) # es) =
     (if a = node_id
      then (case get_children_loop node_id es of
              Inl e \<Rightarrow> Inl e
            | Inr children \<Rightarrow> Inr (b # children))
      else get_children_loop node_id es)"

definition get_children :: "('c, 'm) graph \<Rightarrow> string \<Rightarrow> error + string list" where
  "get_children g node_id = get_children_loop node_id (edges g)"

definition get_node_contents :: "('c, 'm) graph \<Rightarrow> string list \<Rightarrow> error + 'c list" where
  "get_node_contents g ids =
     (if set ids \<subseteq> set (node_ids g)
      then Inr (map (\<lambda>i. content (the (map_of (nodes g) i))) ids)
      else Inl KeyError)"


text \<open>
  Recursion in Python is bounded: a call nested deeper than the interpreter's limit
  raises \<open>RecursionError\<close>. The recursive methods take the number of nested calls
  still available as their first argument.

  \<open>_get_ancestries\<close>: \<open>path[-1]\<close> raises \<open>IndexError\<close> on an empty entry and
  \<open>self.nodes[...]\<close> raises \<open>KeyError\<close> on an identifier that is not stored.
  \<open>get_ancestries_paths\<close> is the outer loop over the node's entries; the inner loop
  extends a copy of the entry by every ancestry of its last element.
\<close>

fun get_ancestries :: "nat \<Rightarrow> ('c, 'm) graph \<Rightarrow> string \<Rightarrow> error + string list list"
  and get_ancestries_paths ::
    "nat \<Rightarrow> ('c, 'm) graph \<Rightarrow> string list list \<Rightarrow> error + string list list" where
  "get_ancestries 0 g node_id = Inl RecursionError"
| "get_ancestries (Suc d) g node_id =
     (case map_of (nodes g) node_id of
        None \<Rightarrow> Inl KeyError
      | Some n \<Rightarrow> if ancestry n = [] then Inr [[]] else get_ancestries_paths d g (ancestry n))"
| "get_ancestries_paths d g [] = Inr []"
| "get_ancestries_paths d g (path # paths) =
     (if path = [] then Inl IndexError
      else (case get_ancestries d g (last path) of
              Inl e \<Rightarrow> Inl e
            | Inr path_ancestries \<Rightarrow>
                (case get_ancestries_paths d g paths of
                   Inl e \<Rightarrow> Inl e
                 | Inr rest \<Rightarrow> Inr (map (\<lambda>pa. path @ pa) path_ancestries @ rest))))"

definition get_ancestry :: "nat \<Rightarrow> ('c, 'm) graph \<Rightarrow> string \<Rightarrow> error + string list list" where
  "get_ancestry d g node_id =
     (if node_id \<in> set (get_roots g) then Inr [[node_id]]
      else (case get_ancestries d g node_id of
              Inl e \<Rightarrow> Inl e
            | Inr paths \<Rightarrow> Inr (map (\<lambda>path. node_id # path) paths)))"

text \<open>
  \<open>_check_for_cycles\<close>: the list \<open>visited\<close> is one object shared by the whole walk
  from a root, so it is threaded through the calls and returned.
\<close>

fun check_for_cycles_from ::
    "nat \<Rightarrow> ('c, 'm) graph \<Rightarrow> string \<Rightarrow> string list \<Rightarrow> error + (bool \<times> string list)"
  and check_for_cycles_children ::
    "nat \<Rightarrow> ('c, 'm) graph \<Rightarrow> string list \<Rightarrow> string list \<Rightarrow> error + (bool \<times> string list)" where
  "check_for_cycles_from 0 g node_id visited = Inl RecursionError"
| "check_for_cycles_from (Suc d) g node_id visited =
     (if node_id \<in> set visited then Inr (True, visited)
      else (case get_children g node_id of
              Inl e \<Rightarrow> Inl e
            | Inr children \<Rightarrow> check_for_cycles_children d g children (visited @ [node_id])))"
| "check_for_cycles_children d g [] visited = Inr (False, visited)"
| "check_for_cycles_children d g (child # children) visited =
     (case check_for_cycles_from d g child visited of
        Inl e \<Rightarrow> Inl e
      | Inr (found, visited') \<Rightarrow>
          if found then Inr (True, visited')
          else check_for_cycles_children d g children visited')"

fun check_for_cycles_roots :: "nat \<Rightarrow> ('c, 'm) graph \<Rightarrow> string list \<Rightarrow> error + bool" where
  "check_for_cycles_roots d g [] = Inr (length (get_roots g) = 0)"
| "check_for_cycles_roots d g (root # roots) =
     (case check_for_cycles_from d g root [] of
        Inl e \<Rightarrow> Inl e
      | Inr (found, visited) \<Rightarrow>
          if found then Inr True else check_for_cycles_roots d g roots)"

definition check_for_cycles :: "nat \<Rightarrow> ('c, 'm) graph \<Rightarrow> error + bool" where
  "check_for_cycles d g = check_for_cycles_roots d g (get_roots g)"

text \<open>
  \<open>common_ancestor\<close>. \<open>list(set(a) & set(b))\<close> enumerates a set in an order the
  language leaves open; the parameter \<open>set_order\<close> is that enumeration, applied to the
  elements of the set. \<open>sorted(None, ...)\<close> raises \<open>TypeError\<close>, the key function
  raises \<open>KeyError\<close> on an identifier that is not stored, \<open>sorted\<close> is stable, and
  \<open>[...][-1]\<close> raises \<open>IndexError\<close> on the empty list.
\<close>

fun intersect_lineages ::
  "(string list \<Rightarrow> string list) \<Rightarrow> string list option \<Rightarrow> string list list \<Rightarrow> string list option" where
  "intersect_lineages set_order most_common [] = most_common"
| "intersect_lineages set_order most_common (lineage # lineages) =
     intersect_lineages set_order
       (case most_common of
          None \<Rightarrow> Some lineage
        | Some m \<Rightarrow> Some (set_order (remdups (filter (\<lambda>x. x \<in> set lineage) m))))
       lineages"

fun common_ancestor_loop ::
  "(string list \<Rightarrow> string list) \<Rightarrow> nat \<Rightarrow> ('c, 'm) graph \<Rightarrow> string list \<Rightarrow>
   string list option \<Rightarrow> error + string list option" where
  "common_ancestor_loop set_order d g [] most_common = Inr most_common"
| "common_ancestor_loop set_order d g (node_id # ids) most_common =
     (case get_ancestry d g node_id of
        Inl e \<Rightarrow> Inl e
      | Inr ancestries \<Rightarrow>
          common_ancestor_loop set_order d g ids
            (intersect_lineages set_order most_common ancestries))"

definition common_ancestor ::
  "(string list \<Rightarrow> string list) \<Rightarrow> nat \<Rightarrow> ('c, 'm) graph \<Rightarrow> string list \<Rightarrow> error + string option" where
  "common_ancestor set_order d g ids =
     (case common_ancestor_loop set_order d g ids None of
        Inl e \<Rightarrow> Inl e
      | Inr None \<Rightarrow> Inl TypeError
      | Inr (Some m) \<Rightarrow>
          if \<not> set m \<subseteq> set (node_ids g) then Inl KeyError
          else (let sorted_m = sort_key (\<lambda>x. length (ancestry_of g x)) m in
                if sorted_m \<noteq> []
                then (case filter (\<lambda>x. x \<notin> set ids) sorted_m of
                        [] \<Rightarrow> Inl IndexError
                      | y # ys \<Rightarrow> Inr (Some (last (y # ys))))
                else Inr None))"

section \<open>\<open>StringDirectedHypergraph\<close>\<close>

text \<open>
  \<open>merge\<close>, \<open>split\<close> and \<open>refactor\<close> draw fresh identifiers: \<open>uuid k\<close> is the value of
  the \<open>k\<close>-th call of \<open>str(uuid4())\<close>, and the functions take and return the number of
  calls made so far.
\<close>

definition merge ::
  "(nat \<Rightarrow> string) \<Rightarrow> nat \<Rightarrow> string list \<Rightarrow> (string, 'm) graph \<Rightarrow>
   error + (string \<times> nat \<times> (string, 'm) graph)" where
  "merge uuid k ids g =
     (case get_node_contents g ids of
        Inl e \<Rightarrow> Inl e
      | Inr contents \<Rightarrow>
          Inr (uuid k, Suc k, fold remove_node ids (add_node (uuid k) (Node (concat contents)) g)))"

text \<open>
  \<open>_refactor\<close>. \<open>refactor_equal\<close> is its first loop, over the list \<open>children\<close> read at
  the start; \<open>node.content\<close> is the content of the node object read at the start.
\<close>

fun refactor_equal ::
  "(nat \<Rightarrow> string) \<Rightarrow> string \<Rightarrow> string \<Rightarrow> string list \<Rightarrow> nat \<Rightarrow> (string, 'm) graph \<Rightarrow>
   error + (nat \<times> (string, 'm) graph)" where
  "refactor_equal uuid node_id c [] k g = Inr (k, g)"
| "refactor_equal uuid node_id c (child # children) k g =
     (case map_of (nodes g) child of
        None \<Rightarrow> Inl KeyError
      | Some n \<Rightarrow>
          if content n = c
          then (case merge uuid k [node_id, child] g of
                  Inl e \<Rightarrow> Inl e
                | Inr (merged, k', g') \<Rightarrow> refactor_equal uuid node_id c children k' g')
          else refactor_equal uuid node_id c children k g)"

definition refactor_single ::
  "(nat \<Rightarrow> string) \<Rightarrow> string \<Rightarrow> string list \<Rightarrow> nat \<Rightarrow> (string, 'm) graph \<Rightarrow>
   error + (nat \<times> (string, 'm) graph)" where
  "refactor_single uuid node_id children k g =
     (if length children = 1
      then (case merge uuid k [node_id, hd children] g of
              Inl e \<Rightarrow> Inl e
            | Inr (merged, k', g') \<Rightarrow> Inr (k', g'))
      else Inr (k, g))"

fun refactor_node ::
    "(nat \<Rightarrow> string) \<Rightarrow> nat \<Rightarrow> string \<Rightarrow> nat \<Rightarrow> (string, 'm) graph \<Rightarrow>
     error + (nat \<times> (string, 'm) graph)"
  and refactor_nodes ::
    "(nat \<Rightarrow> string) \<Rightarrow> nat \<Rightarrow> string list \<Rightarrow> nat \<Rightarrow> (string, 'm) graph \<Rightarrow>
     error + (nat \<times> (string, 'm) graph)" where
  "refactor_node uuid 0 node_id k g = Inl RecursionError"
| "refactor_node uuid (Suc d) node_id k g =
     (case map_of (nodes g) node_id of
        None \<Rightarrow> Inl KeyError
      | Some n \<Rightarrow>
          (case get_children g node_id of
             Inl e \<Rightarrow> Inl e
           | Inr children \<Rightarrow>
               (case refactor_equal uuid node_id (content n) children k g of
                  Inl e \<Rightarrow> Inl e
                | Inr (k1, g1) \<Rightarrow>
                    (case refactor_single uuid node_id children k1 g1 of
                       Inl e \<Rightarrow> Inl e
                     | Inr (k2, g2) \<Rightarrow>
                         (case get_children g2 node_id of
                            Inl e \<Rightarrow> Inl e
                          | Inr children' \<Rightarrow> refactor_nodes uuid d children' k2 g2)))))"
| "refactor_nodes uuid d [] k g = Inr (k, g)"
| "refactor_nodes uuid d (node_id # ids) k g =
     (case refactor_node uuid d node_id k g of
        Inl e \<Rightarrow> Inl e
      | Inr (k', g') \<Rightarrow> refactor_nodes uuid d ids k' g')"

text \<open>
  \<open>refactor\<close>: \<open>for root in self.get_roots(): self._refactor(root)\<close>, over the list
  of roots read at the start.
\<close>

definition refactor ::
  "(nat \<Rightarrow> string) \<Rightarrow> nat \<Rightarrow> nat \<Rightarrow> (string, 'm) graph \<Rightarrow> error + (nat \<times> (string, 'm) graph)" where
  "refactor uuid d k g = refactor_nodes uuid d (get_roots g) k g"

text \<open>
  Python's slices \<open>s[lo:hi]\<close> and \<open>s[lo:]\<close>: a negative index counts from the end, and
  every index is clipped to \<open>0 .. len(s)\<close>.
\<close>

definition py_index :: "nat \<Rightarrow> int \<Rightarrow> nat" where
  "py_index n i = (if i < 0 then nat (max 0 (int n + i)) else min (nat i) n)"

definition py_slice :: "'a list \<Rightarrow> int \<Rightarrow> int \<Rightarrow> 'a list" where
  "py_slice s lo hi =
     take (py_index (length s) hi - py_index (length s) lo) (drop (py_index (length s) lo) s)"

definition py_slice_from :: "'a list \<Rightarrow> int \<Rightarrow> 'a list" where
  "py_slice_from s lo = drop (py_index (length s) lo) s"

text \<open>\<open>boundary: Union[List[int], int]\<close>.\<close>

datatype boundary = Offset int | Offsets "int list"

text \<open>
  The first loop of \<open>split\<close>, over the sorted boundary: it carries \<open>start_index\<close>, the
  count of drawn identifiers, the graph and \<open>split_nodes\<close>.
\<close>

fun split_loop ::
  "(nat \<Rightarrow> string) \<Rightarrow> string \<Rightarrow> int list \<Rightarrow> int \<Rightarrow> nat \<Rightarrow> (string, 'm) graph \<Rightarrow> string list \<Rightarrow>
   int \<times> nat \<times> (string, 'm) graph \<times> string list" where
  "split_loop uuid node_content [] start_index k g split_nodes = (start_index, k, g, split_nodes)"
| "split_loop uuid node_content (end_index # rest) start_index k g split_nodes =
     split_loop uuid node_content rest end_index (Suc k)
       (add_node (uuid k) (Node (py_slice node_content start_index end_index)) g)
       (split_nodes @ [uuid k])"

text \<open>
  \<open>for ancestry in ancestries: self.add_edge(ancestry[::-1] + [split_nodes[0]])\<close>.
  \<open>ancestries\<close> is the ancestry list object of the node being split, and \<open>add_edge\<close>
  appends to that same object when the node stands inside the edge, so the loop runs
  by index over the list as it is at each step. It returns \<open>None\<close> when it never
  ends.
\<close>

partial_function (option) split_ancestry_loop ::
  "string \<Rightarrow> string \<Rightarrow> nat \<Rightarrow> ('c, 'm) graph \<Rightarrow> (error + ('c, 'm) graph) option" where
  "split_ancestry_loop node_id first i g =
     (if i < length (ancestry_of g node_id)
      then (case add_edge (rev (ancestry_of g node_id ! i) @ [first]) g of
              Inl e \<Rightarrow> Some (Inl e)
            | Inr g' \<Rightarrow> split_ancestry_loop node_id first (Suc i) g')
      else Some (Inr g))"

declare split_ancestry_loop.simps [code]

text \<open>A loop that adds the edges of a list in order.\<close>

fun add_edges :: "string list list \<Rightarrow> ('c, 'm) graph \<Rightarrow> error + ('c, 'm) graph" where
  "add_edges [] g = Inr g"
| "add_edges (edge # es) g =
     (case add_edge edge g of Inl e \<Rightarrow> Inl e | Inr g' \<Rightarrow> add_edges es g')"

definition split ::
  "(nat \<Rightarrow> string) \<Rightarrow> nat \<Rightarrow> string \<Rightarrow> boundary \<Rightarrow> (string, 'm) graph \<Rightarrow>
   (error + (string list \<times> nat \<times> (string, 'm) graph)) option" where
  "split uuid k node_id boundary g =
     (case map_of (nodes g) node_id of
        None \<Rightarrow> Some (Inl KeyError)
      | Some n \<Rightarrow>
          (case split_loop uuid (content n)
                  (sort (case boundary of Offset b \<Rightarrow> [b] | Offsets bs \<Rightarrow> bs)) 0 k g [] of
             (start_index, k1, g1, pieces) \<Rightarrow>
               (let g2 = add_node (uuid k1) (Node (py_slice_from (content n) start_index)) g1;
                    split_nodes = pieces @ [uuid k1]
                in (case split_ancestry_loop node_id (hd split_nodes) 0 g2 of
                      None \<Rightarrow> None
                    | Some (Inl e) \<Rightarrow> Some (Inl e)
                    | Some (Inr g3) \<Rightarrow>
                        (case add_edges
                                (map (\<lambda>i. [split_nodes ! i, split_nodes ! (i + 1)])
                                   [0 ..< length split_nodes - 1]) g3 of
                           Inl e \<Rightarrow> Some (Inl e)
                         | Inr g4 \<Rightarrow>
                             (case get_children g4 node_id of
                                Inl e \<Rightarrow> Some (Inl e)
                              | Inr children \<Rightarrow>
                                  (case add_edges (map (\<lambda>child. [last split_nodes, child]) children) g4 of
                                     Inl e \<Rightarrow> Some (Inl e)
                                   | Inr g5 \<Rightarrow>
                                       Some (Inr (split_nodes, Suc k1, remove_node node_id g5)))))))))"

text \<open>
  \<open>content_lineage\<close>. \<open>content.endswith(s)\<close> and \<open>s in content\<close> on strings.
\<close>

definition endswith :: "string \<Rightarrow> string \<Rightarrow> bool" where
  "endswith s suffix =
     (length suffix \<le> length s \<and> drop (length s - length suffix) s = suffix)"

fun py_in :: "string \<Rightarrow> string \<Rightarrow> bool" where
  "py_in sub [] = (sub = [])"
| "py_in sub (c # cs) = (take (length sub) (c # cs) = sub \<or> py_in sub cs)"

fun content_lineage_ancestries ::
  "(string, 'm) graph \<Rightarrow> string \<Rightarrow> string list list \<Rightarrow> error + string list option" where
  "content_lineage_ancestries g c [] = Inr None"
| "content_lineage_ancestries g c (a # as) =
     (case get_node_contents g (rev a) of
        Inl e \<Rightarrow> Inl e
      | Inr contents \<Rightarrow>
          if py_in (concat contents) c then Inr (Some (rev a))
          else content_lineage_ancestries g c as)"

fun content_lineage_nodes ::
  "nat \<Rightarrow> (string, 'm) graph \<Rightarrow> string \<Rightarrow> (string \<times> (string, 'm) node) list \<Rightarrow> error + string list" where
  "content_lineage_nodes d g c [] = Inr []"
| "content_lineage_nodes d g c ((node_id, n) # rest) =
     (if endswith c (content n)
      then (case get_ancestry d g node_id of
              Inl e \<Rightarrow> Inl e
            | Inr ancestries \<Rightarrow>
                (case content_lineage_ancestries g c ancestries of
                   Inl e \<Rightarrow> Inl e
                 | Inr (Some lineage) \<Rightarrow> Inr lineage
                 | Inr None \<Rightarrow> content_lineage_nodes d g c rest))
      else content_lineage_nodes d g c rest)"

definition content_lineage :: "nat \<Rightarrow> (string, 'm) graph \<Rightarrow> string \<Rightarrow> error + string list" where
  "content_lineage d g c = content_lineage_nodes d g c (nodes g)"

text \<open>
  \<open>to_dict\<close> and \<open>from_dict\<close>. The serialised state is a dict with the keys
  \<open>'nodes'\<close> and \<open>'edges'\<close>; each node's entry is a dict with the keys \<open>'content'\<close>,
  \<open>'metadata'\<close> and \<open>'ancestry'\<close>.
\<close>

record ('c, 'm) node_dict =
  d_content :: 'c
  d_metadata :: "(string \<times> 'm) list"
  d_ancestry :: "string list list"

record ('c, 'm) state_dict =
  d_nodes :: "(string \<times> ('c, 'm) node_dict) list"
  d_edges :: "string list list"

fun to_dict_loop ::
  "(string \<times> ('c, 'm) node) list \<Rightarrow> (string \<times> ('c, 'm) node_dict) list \<Rightarrow>
   (string \<times> ('c, 'm) node_dict) list" where
  "to_dict_loop [] acc = acc"
| "to_dict_loop ((node_id, n) # rest) acc =
     to_dict_loop rest
       (AList.update node_id
          \<lparr>d_content = content n, d_metadata = metadata n, d_ancestry = ancestry n\<rparr> acc)"

definition to_dict :: "('c, 'm) graph \<Rightarrow> ('c, 'm) state_dict" where
  "to_dict g = \<lparr>d_nodes = to_dict_loop (nodes g) [], d_edges = edges g\<rparr>"

fun from_dict_loop ::
  "(string \<times> ('c, 'm) node_dict) list \<Rightarrow> (string \<times> ('c, 'm) node) list \<Rightarrow>
   (string \<times> ('c, 'm) node) list" where
  "from_dict_loop [] acc = acc"
| "from_dict_loop ((node_id, node_data) # rest) acc =
     from_dict_loop rest
       (AList.update node_id
          \<lparr>content = d_content node_data, metadata = d_metadata node_data,
           ancestry = d_ancestry node_data\<rparr> acc)"

definition from_dict :: "('c, 'm) state_dict \<Rightarrow> ('c, 'm) graph \<Rightarrow> ('c, 'm) graph" where
  "from_dict state g = g\<lparr>nodes := from_dict_loop (d_nodes state) [], edges := d_edges state\<rparr>"

section \<open>Example graphs\<close>

text \<open>
  A graph built the way the tests build theirs: \<open>add_node\<close> for every pair of an
  identifier and a content, then \<open>add_edge\<close> for every hyperedge, in order.
\<close>

definition build ::
  "(string \<times> 'c) list \<Rightarrow> string list list \<Rightarrow> error + ('c, 'm) graph" where
  "build ns es = add_edges es (fold (\<lambda>(i, c). add_node i (Node c)) ns empty_graph)"

text \<open>The ten nodes and six hyperedges of \<open>test_node_ancestry\<close>.\<close>

definition ten_node_graph :: "error + (string, unit) graph" where
  "ten_node_graph =
     build [(''1'', ''A''), (''2'', ''B''), (''3'', ''C''), (''4'', ''D''), (''5'', ''E''),
            (''6'', ''F''), (''7'', ''G''), (''8'', ''H''), (''9'', ''I''), (''10'', ''J'')]
       [[''1'', ''2'', ''3''], [''2'', ''4'', ''5''], [''3'', ''6'', ''7''],
        [''4'', ''8'', ''9''], [''5'', ''10''], [''4'', ''10'']]"

text \<open>The diamond of the spec: \<open>A \<rightarrow> B\<close>, \<open>A \<rightarrow> C\<close>, \<open>B \<rightarrow> D\<close>, \<open>C \<rightarrow> D\<close>.\<close>

definition diamond_graph :: "error + (string, unit) graph" where
  "diamond_graph =
     build [(''A'', ''a''), (''B'', ''b''), (''C'', ''c''), (''D'', ''d'')]
       [[''A'', ''B''], [''A'', ''C''], [''B'', ''D''], [''C'', ''D'']]"

text \<open>The diamond with a second child \<open>E\<close> of \<open>B\<close>.\<close>

definition diamond_tail_graph :: "error + (string, unit) graph" where
  "diamond_tail_graph =
     build [(''A'', ''a''), (''B'', ''b''), (''C'', ''c''), (''D'', ''d''), (''E'', ''e'')]
       [[''A'', ''B''], [''A'', ''C''], [''B'', ''D''], [''C'', ''D''], [''B'', ''E'']]"

text \<open>The cycle of \<open>test_check_for_cycles\<close>: \<open>A \<rightarrow> B\<close>, \<open>B \<rightarrow> C\<close>, \<open>C \<rightarrow> A\<close>.\<close>

definition three_cycle_graph :: "error + (string, unit) graph" where
  "three_cycle_graph =
     build [(''A'', ''a''), (''B'', ''b''), (''C'', ''c'')]
       [[''A'', ''B''], [''B'', ''C''], [''C'', ''A'']]"

text \<open>Two nodes and the hyperedge \<open>[A, B, A]\<close>, which names its head twice.\<close>

definition repeated_head_graph :: "error + (string, unit) graph" where
  "repeated_head_graph =
     build [(''A'', ''a''), (''B'', ''b'')] [[''A'', ''B'', ''A'']]"

text \<open>The six nodes and four hyperedges of \<open>test_content_lineage\<close>.\<close>

definition six_node_graph :: "error + (string, unit) graph" where
  "six_node_graph =
     build [(''1'', ''The quick ''), (''2'', ''brown fox jumps ''), (''3'', ''red car drives ''),
            (''4'', ''over the ''), (''5'', ''lazy dog.''), (''6'', ''speedbump.'')]
       [[''1'', ''2'', ''4''], [''1'', ''3'', ''4''], [''2'', ''4'', ''5''], [''3'', ''4'', ''6'']]"

text \<open>A root with the children \<open>B\<close> and \<open>C\<close>, where \<open>B\<close> has the single child \<open>D\<close>.\<close>

definition small_tree_graph :: "error + (string, unit) graph" where
  "small_tree_graph =
     build [(''A'', ''a''), (''B'', ''b''), (''C'', ''c''), (''D'', ''d'')]
       [[''A'', ''B''], [''A'', ''C''], [''B'', ''D'']]"

text \<open>A root and its only child, with the same content.\<close>

definition equal_pair_graph :: "error + (string, unit) graph" where
  "equal_pair_graph = build [(''A'', ''x''), (''B'', ''x'')] [[''A'', ''B'']]"

text \<open>A stream of fresh identifiers for the examples: \<open>u\<close>, \<open>ui\<close>, \<open>uii\<close>, ...\<close>

definition example_uuid :: "nat \<Rightarrow> string" where
  "example_uuid k = CHR ''u'' # replicate k (CHR ''i'')"

section \<open>Behaviour the claims describe, where it differs from the code\<close>

text \<open>
  The walk of claim C4, in the claim's words: from a node, a cycle is found when a
  node of the current path from the root is reached again. The path is passed down to
  the children and not shared between siblings.
\<close>

fun revisits_on_path :: "nat \<Rightarrow> ('c, 'm) graph \<Rightarrow> string \<Rightarrow> string list \<Rightarrow> error + bool"
  and revisits_on_path_children ::
    "nat \<Rightarrow> ('c, 'm) graph \<Rightarrow> string list \<Rightarrow> string list \<Rightarrow> error + bool" where
  "revisits_on_path 0 g node_id path = Inl RecursionError"
| "revisits_on_path (Suc d) g node_id path =
     (if node_id \<in> set path then Inr True
      else (case get_children g node_id of
              Inl e \<Rightarrow> Inl e
            | Inr children \<Rightarrow> revisits_on_path_children d g children (path @ [node_id])))"
| "revisits_on_path_children d g [] path = Inr False"
| "revisits_on_path_children d g (child # children) path =
     (case revisits_on_path d g child path of
        Inl e \<Rightarrow> Inl e
      | Inr found \<Rightarrow>
          if found then Inr True else revisits_on_path_children d g children path)"

fun cycles_on_path_roots :: "nat \<Rightarrow> ('c, 'm) graph \<Rightarrow> string list \<Rightarrow> error + bool" where
  "cycles_on_path_roots d g [] = Inr (get_roots g = [])"
| "cycles_on_path_roots d g (root # roots) =
     (case revisits_on_path d g root [] of
        Inl e \<Rightarrow> Inl e
      | Inr found \<Rightarrow> if found then Inr True else cycles_on_path_roots d g roots)"

definition cycles_on_path :: "nat \<Rightarrow> ('c, 'm) graph \<Rightarrow> error + bool" where
  "cycles_on_path d g = cycles_on_path_roots d g (get_roots g)"

text \<open>
  The selection of claim C3, in the claim's words: for every queried node the union of
  the identifiers of its lineages, the intersection of these unions, without the
  queried identifiers. The result lists the identifiers of that remainder whose number
  of ancestry entries is greatest, the answers the claim admits; it is empty when the
  claim's answer is the sentinel.
\<close>

fun get_ancestry_all ::
  "nat \<Rightarrow> ('c, 'm) graph \<Rightarrow> string list \<Rightarrow> error + string list list list" where
  "get_ancestry_all d g [] = Inr []"
| "get_ancestry_all d g (node_id # ids) =
     (case get_ancestry d g node_id of
        Inl e \<Rightarrow> Inl e
      | Inr lineages \<Rightarrow>
          (case get_ancestry_all d g ids of
             Inl e \<Rightarrow> Inl e
           | Inr rest \<Rightarrow> Inr (lineages # rest)))"

definition union_common_ancestors ::
  "nat \<Rightarrow> ('c, 'm) graph \<Rightarrow> string list \<Rightarrow> error + string list" where
  "union_common_ancestors d g ids =
     (case get_ancestry_all d g ids of
        Inl e \<Rightarrow> Inl e
      | Inr lineages \<Rightarrow>
          (let unions = map (\<lambda>ls. remdups (concat ls)) lineages;
               common = filter (\<lambda>x. list_all (\<lambda>u. x \<in> set u) unions) (remdups (concat unions));
               others = filter (\<lambda>x. x \<notin> set ids) common
           in Inr (filter (\<lambda>x. list_all (\<lambda>y. length (ancestry_of g y) \<le> length (ancestry_of g x))
                              others) others)))"

text \<open>
  The concatenated contents of the nodes of a lineage, in the order of the lineage
  (\<open>''.join(self.get_node_contents(lineage))\<close> when every identifier is stored).
\<close>

definition lineage_content :: "(string, 'm) graph \<Rightarrow> string list \<Rightarrow> string" where
  "lineage_content g lineage =
     concat (map (\<lambda>i. case content_of g i of None \<Rightarrow> [] | Some c \<Rightarrow> c) lineage)"

text \<open>Two nodes \<open>ab \<rightarrow> c\<close>.\<close>

definition two_node_graph :: "error + (string, unit) graph" where
  "two_node_graph = build [(''1'', ''ab''), (''2'', ''c'')] [[''1'', ''2'']]"

section \<open>Basic facts about the node dict\<close>

lemma stored_iff: "i \<in> set (node_ids g) \<longleftrightarrow> (\<exists>n. map_of (nodes g) i = Some n)"
proof -
  have "i \<in> fst ` set (nodes g) \<longleftrightarrow> map_of (nodes g) i \<noteq> None"
    by (simp add: map_of_eq_None_iff)
  then show ?thesis by (simp add: node_ids_def)
qed

lemma not_stored_iff: "i \<notin> set (node_ids g) \<longleftrightarrow> map_of (nodes g) i = None"
  by (simp add: stored_iff)

lemma content_of_stored: "content_of g i \<noteq> None \<longleftrightarrow> i \<in> set (node_ids g)"
  by (simp add: content_of_def stored_iff)

lemma ancestry_of_not_stored: "i \<notin> set (node_ids g) \<Longrightarrow> ancestry_of g i = []"
  by (simp add: ancestry_of_def not_stored_iff)

lemma keys_update_stored:
  "map_of al i = Some n \<Longrightarrow> map fst (AList.update i n' al) = map fst al"
  using map_of_eq_None_iff [of al i] by (auto simp add: update_keys)

lemma keys_update_fresh:
  "map_of al i = None \<Longrightarrow> map fst (AList.update i n' al) = map fst al @ [i]"
  using map_of_eq_None_iff [of al i] by (auto simp add: update_keys)

section \<open>The primitive updates\<close>

lemma add_node_obs:
  "edges (add_node i n g) = edges g"
  "node_ids (add_node i n g) = (if i \<in> set (node_ids g) then node_ids g else node_ids g @ [i])"
  "content_of (add_node i n g) = (content_of g)(i \<mapsto> content n)"
  "metadata_of (add_node i n g) = (metadata_of g)(i \<mapsto> metadata n)"
  "ancestry_of (add_node i n g) = (ancestry_of g)(i := ancestry n)"
  by (auto simp: add_node_def node_ids_def content_of_def metadata_of_def ancestry_of_def
      update_keys update_conv' fun_eq_iff)

lemma append_ancestry_stored:
  assumes "i \<in> set (node_ids g)"
  shows "\<exists>g'. append_ancestry i p g = Inr g' \<and> edges g' = edges g \<and> node_ids g' = node_ids g
           \<and> content_of g' = content_of g \<and> metadata_of g' = metadata_of g
           \<and> ancestry_of g' = (ancestry_of g)(i := ancestry_of g i @ [p])"
proof -
  from assms obtain n where n: "map_of (nodes g) i = Some n"
    by (auto simp: stored_iff)
  then show ?thesis
    by (auto simp: append_ancestry_def node_ids_def keys_update_stored update_conv'
        content_of_def metadata_of_def ancestry_of_def fun_eq_iff)
qed

lemma append_ancestry_not_stored:
  "i \<notin> set (node_ids g) \<Longrightarrow> append_ancestry i p g = Inl KeyError"
  by (simp add: append_ancestry_def not_stored_iff)

lemma clear_ancestry_obs:
  "edges (clear_ancestry i g) = edges g"
  "node_ids (clear_ancestry i g) = node_ids g"
  "content_of (clear_ancestry i g) = content_of g"
  "metadata_of (clear_ancestry i g) = metadata_of g"
  "ancestry_of (clear_ancestry i g) = (ancestry_of g)(i := [])"
  by (auto simp: clear_ancestry_def node_ids_def keys_update_stored update_conv'
      content_of_def metadata_of_def ancestry_of_def fun_eq_iff split: option.splits)

lemma fold_clear_ancestry_obs:
  "edges (fold clear_ancestry is g) = edges g"
  "node_ids (fold clear_ancestry is g) = node_ids g"
  "content_of (fold clear_ancestry is g) = content_of g"
  "metadata_of (fold clear_ancestry is g) = metadata_of g"
  "ancestry_of (fold clear_ancestry is g) = (\<lambda>x. if x \<in> set is then [] else ancestry_of g x)"
  by (induction "is" arbitrary: g; auto simp: clear_ancestry_obs fun_eq_iff)+

lemma edges_update_obs:
  "node_ids (g\<lparr>edges := es\<rparr>) = node_ids g"
  "content_of (g\<lparr>edges := es\<rparr>) = content_of g"
  "metadata_of (g\<lparr>edges := es\<rparr>) = metadata_of g"
  "ancestry_of (g\<lparr>edges := es\<rparr>) = ancestry_of g"
  by (simp_all add: node_ids_def content_of_def metadata_of_def ancestry_of_def fun_eq_iff)

lemma remove_edge_obs:
  "edges (remove_edge e g) = remove1 e (edges g)"
  "node_ids (remove_edge e g) = node_ids g"
  "content_of (remove_edge e g) = content_of g"
  "metadata_of (remove_edge e g) = metadata_of g"
  "ancestry_of (remove_edge e g) = (\<lambda>x. if x \<in> set (tl e) then [] else ancestry_of g x)"
  by (simp_all add: remove_edge_def fold_clear_ancestry_obs edges_update_obs cong: if_cong)

lemma fold_remove1_keep:
  "x \<notin> set ys \<Longrightarrow> fold remove1 ys (x # xs) = x # fold remove1 ys xs"
  by (induction ys arbitrary: xs) auto

lemma fold_remove1_filter:
  "fold remove1 (filter P xs) xs = filter (\<lambda>x. \<not> P x) xs"
  by (induction xs) (auto simp: fold_remove1_keep)

lemma fold_remove_edge_obs:
  "edges (fold remove_edge es g) = fold remove1 es (edges g)"
  "node_ids (fold remove_edge es g) = node_ids g"
  "content_of (fold remove_edge es g) = content_of g"
  "metadata_of (fold remove_edge es g) = metadata_of g"
  "ancestry_of (fold remove_edge es g) =
     (\<lambda>x. if \<exists>e \<in> set es. x \<in> set (tl e) then [] else ancestry_of g x)"
  by (induction es arbitrary: g; auto simp: remove_edge_obs fun_eq_iff)+

lemma delete_obs:
  "node_ids (g\<lparr>nodes := AList.delete i (nodes g)\<rparr>) = removeAll i (node_ids g)"
  "edges (g\<lparr>nodes := AList.delete i (nodes g)\<rparr>) = edges g"
  "content_of (g\<lparr>nodes := AList.delete i (nodes g)\<rparr>) = (content_of g)(i := None)"
  "metadata_of (g\<lparr>nodes := AList.delete i (nodes g)\<rparr>) = (metadata_of g)(i := None)"
  "ancestry_of (g\<lparr>nodes := AList.delete i (nodes g)\<rparr>) = (ancestry_of g)(i := [])"
  by (auto simp: node_ids_def content_of_def metadata_of_def ancestry_of_def fun_eq_iff
      delete_keys delete_conv')

lemma remove_node_stored:
  assumes "i \<in> set (node_ids g)"
  shows "edges (remove_node i g) = filter (\<lambda>e. i \<notin> set e) (edges g)"
    and "node_ids (remove_node i g) = removeAll i (node_ids g)"
    and "content_of (remove_node i g) = (content_of g)(i := None)"
    and "metadata_of (remove_node i g) = (metadata_of g)(i := None)"
    and "ancestry_of (remove_node i g) =
           (\<lambda>x. if x = i \<or> (\<exists>e \<in> set (edges g). i \<in> set e \<and> x \<in> set (tl e)) then []
                else ancestry_of g x)"
  using assms
  by (auto simp: remove_node_def fold_remove_edge_obs delete_obs fold_remove1_filter fun_eq_iff)

lemma remove_node_not_stored: "i \<notin> set (node_ids g) \<Longrightarrow> remove_node i g = g"
  by (simp add: remove_node_def)


section \<open>add_edge\<close>

lemma add_edge_loop_stored:
  assumes "\<forall>i \<in> set is. e ! i \<in> set (node_ids g)"
  shows "\<exists>g'. add_edge_loop e is g = Inr g' \<and> edges g' = edges g \<and> node_ids g' = node_ids g
           \<and> content_of g' = content_of g \<and> metadata_of g' = metadata_of g
           \<and> ancestry_of g' =
               (\<lambda>x. ancestry_of g x @ map (\<lambda>i. rev (take i e)) (filter (\<lambda>i. e ! i = x) is))"
  using assms
proof (induction "is" arbitrary: g)
  case Nil
  then show ?case by simp
next
  case (Cons i "is")
  from Cons.prems have "e ! i \<in> set (node_ids g)" by simp
  from append_ancestry_stored [OF this, of "rev (take i e)"]
  obtain g1 where g1: "append_ancestry (e ! i) (rev (take i e)) g = Inr g1"
    "edges g1 = edges g" "node_ids g1 = node_ids g"
    "content_of g1 = content_of g" "metadata_of g1 = metadata_of g"
    "ancestry_of g1 = (ancestry_of g)(e ! i := ancestry_of g (e ! i) @ [rev (take i e)])"
    by blast
  from Cons.prems g1(3) have "\<forall>j \<in> set is. e ! j \<in> set (node_ids g1)" by simp
  from Cons.IH [OF this]
  obtain g2 where g2: "add_edge_loop e is g1 = Inr g2" "edges g2 = edges g1"
    "node_ids g2 = node_ids g1" "content_of g2 = content_of g1" "metadata_of g2 = metadata_of g1"
    "ancestry_of g2 =
       (\<lambda>x. ancestry_of g1 x @ map (\<lambda>i. rev (take i e)) (filter (\<lambda>i. e ! i = x) is))"
    by blast
  show ?case
    using g1 g2 by (auto simp: fun_eq_iff)
qed

lemma add_edge_positions:
  assumes "e \<noteq> []" and "\<forall>i \<in> set ([1 ..< length e - 1] @ [length e - 1]). e ! i \<in> set (node_ids g)"
  shows "\<exists>g'. add_edge e g = Inr g' \<and> edges g' = edges g @ [e] \<and> node_ids g' = node_ids g
           \<and> content_of g' = content_of g \<and> metadata_of g' = metadata_of g
           \<and> ancestry_of g' =
               (\<lambda>x. ancestry_of g x @ map (\<lambda>i. rev (take i e))
                      (filter (\<lambda>i. e ! i = x) ([1 ..< length e - 1] @ [length e - 1])))"
proof -
  let ?g0 = "g\<lparr>edges := edges g @ [e]\<rparr>"
  from assms(2) have "\<forall>i \<in> set [1 ..< length e - 1]. e ! i \<in> set (node_ids ?g0)"
    by (simp add: edges_update_obs)
  from add_edge_loop_stored [OF this]
  obtain g1 where g1: "add_edge_loop e [1 ..< length e - 1] ?g0 = Inr g1" "edges g1 = edges ?g0"
    "node_ids g1 = node_ids ?g0" "content_of g1 = content_of ?g0" "metadata_of g1 = metadata_of ?g0"
    "ancestry_of g1 =
       (\<lambda>x. ancestry_of ?g0 x @ map (\<lambda>i. rev (take i e)) (filter (\<lambda>i. e ! i = x) [1 ..< length e - 1]))"
    by blast
  have last: "last e = e ! (length e - 1)" "butlast e = take (length e - 1) e"
    using assms(1) by (simp_all add: last_conv_nth butlast_conv_take)
  from assms(2) have "last e \<in> set (node_ids g1)"
    by (simp add: last g1(3) edges_update_obs)
  from append_ancestry_stored [OF this, of "rev (butlast e)"]
  obtain g2 where g2: "append_ancestry (last e) (rev (butlast e)) g1 = Inr g2"
    "edges g2 = edges g1" "node_ids g2 = node_ids g1"
    "content_of g2 = content_of g1" "metadata_of g2 = metadata_of g1"
    "ancestry_of g2 = (ancestry_of g1)(last e := ancestry_of g1 (last e) @ [rev (butlast e)])"
    by blast
  have "add_edge e g = Inr g2"
    using g1(1) g2(1) assms(1) by (simp add: add_edge_def)
  moreover have "ancestry_of g2 =
      (\<lambda>x. ancestry_of g x @ map (\<lambda>i. rev (take i e))
              (filter (\<lambda>i. e ! i = x) ([1 ..< length e - 1] @ [length e - 1])))"
    by (auto simp: g2(6) g1(6) last edges_update_obs fun_eq_iff)
  ultimately show ?thesis
    using g1 g2 by (simp add: edges_update_obs)
qed

lemma add_edge_stored:
  assumes "2 \<le> length e" and "set (tl e) \<subseteq> set (node_ids g)"
  shows "\<exists>g'. add_edge e g = Inr g' \<and> edges g' = edges g @ [e] \<and> node_ids g' = node_ids g
           \<and> content_of g' = content_of g \<and> metadata_of g' = metadata_of g
           \<and> ancestry_of g' =
               (\<lambda>x. ancestry_of g x @ map (\<lambda>i. rev (take i e)) (filter (\<lambda>i. e ! i = x) [1 ..< length e]))"
proof -
  have pos: "[1 ..< length e - 1] @ [length e - 1] = [1 ..< length e]"
    using assms(1) by (cases "length e") auto
  have "\<forall>i \<in> set [1 ..< length e]. e ! i \<in> set (node_ids g)"
  proof
    fix i assume "i \<in> set [1 ..< length e]"
    then have "e ! i = tl e ! (i - 1)" "i - 1 < length (tl e)"
      by (auto simp: nth_tl)
    then show "e ! i \<in> set (node_ids g)"
      using assms(2) by (metis nth_mem subsetD)
  qed
  then have stored: "\<forall>i \<in> set ([1 ..< length e - 1] @ [length e - 1]). e ! i \<in> set (node_ids g)"
    unfolding pos .
  have "e \<noteq> []" using assms(1) by auto
  from add_edge_positions [OF this stored] show ?thesis
    unfolding pos .
qed

section \<open>Adding a hyperedge\<close>

text \<open>
  Claim C1. For a hyperedge \<open>e\<close> of length at least two whose identifiers are all
  stored, \<open>add_edge e\<close> returns, appends \<open>e\<close> to the edge sequence and appends to the
  ancestry of every node \<open>x\<close>, for every position \<open>i\<close> in \<open>1 .. len(e) - 1\<close> with
  \<open>e[i] = x\<close> and in the order of the positions, the entry \<open>rev (take i e)\<close>, that is
  \<open>[e[i-1], ..., e[0]]\<close>; the keys, the contents and the metadata of the nodes are
  unchanged. After the six hyperedges of the ten-node example, the ancestry of node 10
  is \<open>[[5], [4]]\<close>.
\<close>

theorem add_edge_appends_reversed_prefixes:
  assumes "2 \<le> length e" and "set e \<subseteq> set (node_ids g)"
  shows "(\<exists>g'. add_edge e g = Inr g' \<and> edges g' = edges g @ [e] \<and>
            (\<forall>x. ancestry_of g' x =
                   ancestry_of g x @
                   map (\<lambda>i. rev (take i e)) (filter (\<lambda>i. e ! i = x) [1 ..< length e])) \<and>
            node_ids g' = node_ids g \<and> content_of g' = content_of g \<and>
            metadata_of g' = metadata_of g) \<and>
         (case ten_node_graph of
            Inl err \<Rightarrow> False
          | Inr t \<Rightarrow> ancestry_of t ''10'' = [[''5''], [''4'']])"
proof
  have "set (tl e) \<subseteq> set (node_ids g)"
    using assms(2) by (metis list.set_sel(2) subsetD subsetI tl_Nil)
  from add_edge_stored [OF assms(1) this]
  show "\<exists>g'. add_edge e g = Inr g' \<and> edges g' = edges g @ [e] \<and>
            (\<forall>x. ancestry_of g' x =
                   ancestry_of g x @
                   map (\<lambda>i. rev (take i e)) (filter (\<lambda>i. e ! i = x) [1 ..< length e])) \<and>
            node_ids g' = node_ids g \<and> content_of g' = content_of g \<and>
            metadata_of g' = metadata_of g"
    by auto
  show "case ten_node_graph of
          Inl err \<Rightarrow> False
        | Inr t \<Rightarrow> ancestry_of t ''10'' = [[''5''], [''4'']]"
    by code_simp
qed

theorem add_edge_appends_reversed_prefixes_witness:
  "\<exists>g'. add_edge [''1'', ''2'', ''3'']
           (add_node ''3'' (Node ''C'') (add_node ''2'' (Node ''B'')
              (add_node ''1'' (Node ''A'') (empty_graph :: (string, unit) graph)))) = Inr g' \<and>
        edges g' = [[''1'', ''2'', ''3'']] \<and>
        ancestry_of g' ''2'' = [[''1'']] \<and> ancestry_of g' ''3'' = [[''2'', ''1'']] \<and>
        ancestry_of g' ''1'' = []"
proof -
  let ?g = "add_node ''3'' (Node ''C'') (add_node ''2'' (Node ''B'')
              (add_node ''1'' (Node ''A'') (empty_graph :: (string, unit) graph)))"
  have ids: "node_ids ?g = [''1'', ''2'', ''3'']"
    by (simp add: add_node_def empty_graph_def node_ids_def)
  have anc: "ancestry_of ?g = (\<lambda>x. [])"
    by (auto simp: add_node_def empty_graph_def ancestry_of_def Node_def fun_eq_iff)
  have es: "edges ?g = []"
    by (simp add: add_node_def empty_graph_def)
  have h1: "2 \<le> length [''1'', ''2'', ''3'']" by simp
  have h2: "set [''1'', ''2'', ''3''] \<subseteq> set (node_ids ?g)" by (simp add: ids)
  have up: "[1 ..< 3] = [1, 2]" by (simp add: upt_rec)
  from add_edge_appends_reversed_prefixes [OF h1 h2]
  obtain g' where g': "add_edge [''1'', ''2'', ''3''] ?g = Inr g'"
    "edges g' = edges ?g @ [[''1'', ''2'', ''3'']]"
    "\<And>x. ancestry_of g' x =
        ancestry_of ?g x @
        map (\<lambda>i. rev (take i [''1'', ''2'', ''3'']))
          (filter (\<lambda>i. [''1'', ''2'', ''3''] ! i = x) [1 ..< length [''1'', ''2'', ''3'']])"
    by blast
  have "ancestry_of g' ''2'' = [[''1'']]" "ancestry_of g' ''3'' = [[''2'', ''1'']]"
    "ancestry_of g' ''1'' = []"
    by (simp_all add: g'(3) anc up)
  then show ?thesis using g'(1,2) es by simp
qed

section \<open>Serialisation\<close>

lemma update_fresh: "k \<notin> fst ` set al \<Longrightarrow> AList.update k v al = al @ [(k, v)]"
  by (induction al) auto

lemma to_dict_loop_distinct:
  "distinct (map fst al) \<Longrightarrow> fst ` set al \<inter> fst ` set acc = {} \<Longrightarrow>
   to_dict_loop al acc =
     acc @ map (\<lambda>(i, n). (i, \<lparr>d_content = content n, d_metadata = metadata n, d_ancestry = ancestry n\<rparr>)) al"
proof (induction al arbitrary: acc)
  case Nil
  then show ?case by simp
next
  case (Cons a al)
  obtain i n where a: "a = (i, n)" by (cases a)
  have fresh: "i \<notin> fst ` set acc" using Cons.prems(2) a by auto
  have "fst ` set al \<inter> fst ` set (acc @ [(i, \<lparr>d_content = content n, d_metadata = metadata n, d_ancestry = ancestry n\<rparr>)]) = {}"
    using Cons.prems a by auto
  with Cons.IH [of "acc @ [(i, \<lparr>d_content = content n, d_metadata = metadata n, d_ancestry = ancestry n\<rparr>)]"] Cons.prems(1)
  show ?case by (simp add: a update_fresh [OF fresh])
qed

lemma from_dict_loop_distinct:
  "distinct (map fst al) \<Longrightarrow> fst ` set al \<inter> fst ` set acc = {} \<Longrightarrow>
   from_dict_loop al acc =
     acc @ map (\<lambda>(i, nd). (i, \<lparr>content = d_content nd, metadata = d_metadata nd, ancestry = d_ancestry nd\<rparr>)) al"
proof (induction al arbitrary: acc)
  case Nil
  then show ?case by simp
next
  case (Cons a al)
  obtain i n where a: "a = (i, n)" by (cases a)
  have fresh: "i \<notin> fst ` set acc" using Cons.prems(2) a by auto
  have "fst ` set al \<inter> fst ` set (acc @ [(i, \<lparr>content = d_content n, metadata = d_metadata n, ancestry = d_ancestry n\<rparr>)]) = {}"
    using Cons.prems a by auto
  with Cons.IH [of "acc @ [(i, \<lparr>content = d_content n, metadata = d_metadata n, ancestry = d_ancestry n\<rparr>)]"] Cons.prems(1)
  show ?case by (simp add: a update_fresh [OF fresh])
qed

lemma node_dict_keys:
  "map fst (map (\<lambda>(i, n). (i, \<lparr>d_content = content n, d_metadata = metadata n,
       d_ancestry = ancestry n\<rparr>)) al) = map fst al"
  by (induction al) auto

lemma node_dict_inverse:
  "map (\<lambda>(i, nd). (i, \<lparr>content = d_content nd, metadata = d_metadata nd, ancestry = d_ancestry nd\<rparr>))
     (map (\<lambda>(i, n). (i, \<lparr>d_content = content n, d_metadata = metadata n, d_ancestry = ancestry n\<rparr>))
        (al :: (string \<times> ('c, 'm) node) list)) = al"
  by (induction al) auto

lemma built_obtain:
  "(case r of Inl err \<Rightarrow> False | Inr g \<Rightarrow> P g) \<Longrightarrow> \<exists>g. r = Inr g \<and> P g"
  by (cases r) auto

text \<open>
  Claim C8. For every graph whose node dict has distinct keys (every Python dict has),
  \<open>from_dict\<close> applied to the result of \<open>to_dict\<close> gives the graph again: the same
  identifiers in the same order with the same content, metadata and ancestry, and the
  same hyperedge sequence. The graph \<open>g0\<close> is the object \<open>from_dict\<close> is called on,
  whose two fields are both overwritten.
\<close>

theorem from_dict_to_dict:
  assumes "distinct (node_ids g)"
  shows "from_dict (to_dict g) g0 = g"
proof -
  let ?f = "\<lambda>(i, n). (i, \<lparr>d_content = content n, d_metadata = metadata n, d_ancestry = ancestry n\<rparr>)"
  let ?h = "\<lambda>(i, nd). (i, \<lparr>content = d_content nd, metadata = d_metadata nd, ancestry = d_ancestry nd\<rparr>)"
  have td: "to_dict_loop (nodes g) [] = map ?f (nodes g)"
    using to_dict_loop_distinct [of "nodes g" "[]"] assms by (simp add: node_ids_def)
  have d2: "distinct (map fst (map ?f (nodes g)))"
    unfolding node_dict_keys using assms by (simp add: node_ids_def)
  have e2: "fst ` set (map ?f (nodes g)) \<inter> fst ` set [] = {}" by simp
  have "from_dict_loop (map ?f (nodes g)) [] = [] @ map ?h (map ?f (nodes g))"
    by (rule from_dict_loop_distinct [OF d2 e2])
  then have "from_dict_loop (map ?f (nodes g)) [] = nodes g"
    unfolding node_dict_inverse by simp
  then show ?thesis
    by (simp add: from_dict_def to_dict_def td)
qed

theorem from_dict_to_dict_witness:
  "case six_node_graph of
     Inl err \<Rightarrow> False
   | Inr g \<Rightarrow> distinct (node_ids g) \<and> from_dict (to_dict g) empty_graph = g"
proof -
  have "case six_node_graph of Inl err \<Rightarrow> False | Inr g \<Rightarrow> distinct (node_ids g)"
    by code_simp
  from built_obtain [OF this]
  obtain g where g: "six_node_graph = Inr g" and d: "distinct (node_ids g)"
    by blast
  from from_dict_to_dict [OF d, of empty_graph] show ?thesis
    unfolding g using d by simp
qed

section \<open>Cycle detection\<close>

text \<open>
  Claim C4. The claim holds on the empty graph and on the three-node cycle, but not in
  general: the list \<open>visited\<close> is shared by the whole walk from a root and never
  shortened, so a node reached along two different paths counts as revisited. On the
  diamond, which has the root \<open>A\<close> and no cycle, \<open>check_for_cycles\<close> returns \<open>True\<close>,
  while no node is met twice on one path.
\<close>

theorem check_for_cycles_reports_diamond:
  "case diamond_graph of
     Inl err \<Rightarrow> False
   | Inr g \<Rightarrow> get_roots g = [''A''] \<and> check_for_cycles 1000 g = Inr True \<and>
              cycles_on_path 1000 g = Inr False"
  by code_simp

section \<open>Removing a hyperedge\<close>

text \<open>
  Claim C5, as stated, fails where the head of the hyperedge stands again at a later
  position: on the graph with the single hyperedge \<open>[A, B, A]\<close>, removing that
  hyperedge empties the ancestry of \<open>A\<close>, the node at position 0.
\<close>

theorem remove_edge_clears_repeated_head:
  "case repeated_head_graph of
     Inl err \<Rightarrow> False
   | Inr g \<Rightarrow> edges g = [[''A'', ''B'', ''A'']] \<and> ancestry_of g ''A'' = [[''B'', ''A'']] \<and>
              ancestry_of (remove_edge [''A'', ''B'', ''A''] g) ''A'' = []"
  by code_simp

text \<open>
  Claim C5, amended. For every hyperedge value \<open>e\<close>, \<open>remove_edge e\<close> removes the
  first value-equal occurrence of \<open>e\<close> from the edge sequence (one element less when
  there is one, no change when there is none), empties the whole ancestry of every
  stored node whose identifier stands at a non-head position of \<open>e\<close>, and leaves the
  ancestry of every other node unchanged, the node at position 0 included unless its
  identifier stands again at a later position; the keys, contents and metadata of all
  nodes are unchanged.
\<close>

theorem remove_edge_effect:
  "edges (remove_edge e g) = remove1 e (edges g) \<and>
   (e \<notin> set (edges g) \<longrightarrow> edges (remove_edge e g) = edges g) \<and>
   (e \<in> set (edges g) \<longrightarrow> Suc (length (edges (remove_edge e g))) = length (edges g)) \<and>
   (\<forall>x. ancestry_of (remove_edge e g) x = (if x \<in> set (tl e) then [] else ancestry_of g x)) \<and>
   node_ids (remove_edge e g) = node_ids g \<and>
   content_of (remove_edge e g) = content_of g \<and>
   metadata_of (remove_edge e g) = metadata_of g"
proof -
  have "e \<in> set (edges g) \<Longrightarrow> Suc (length (remove1 e (edges g))) = length (edges g)"
    using length_pos_if_in_set [of e "edges g"] by (simp add: length_remove1)
  then show ?thesis
    by (simp add: remove_edge_obs remove1_idem)
qed

theorem remove_edge_effect_witness:
  "case diamond_graph of
     Inl err \<Rightarrow> False
   | Inr g \<Rightarrow> [''B'', ''D''] \<in> set (edges g) \<and>
              edges (remove_edge [''B'', ''D''] g) = [[''A'', ''B''], [''A'', ''C''], [''C'', ''D'']] \<and>
              ancestry_of g ''D'' = [[''B''], [''C'']] \<and>
              ancestry_of (remove_edge [''B'', ''D''] g) ''D'' = [] \<and>
              ancestry_of (remove_edge [''B'', ''D''] g) ''B'' = [[''A'']]"
proof -
  have "case diamond_graph of Inl err \<Rightarrow> False
        | Inr g \<Rightarrow> edges g = [[''A'', ''B''], [''A'', ''C''], [''B'', ''D''], [''C'', ''D'']] \<and>
            ancestry_of g ''D'' = [[''B''], [''C'']] \<and> ancestry_of g ''B'' = [[''A'']]"
    by code_simp
  from built_obtain [OF this]
  obtain g where g: "diamond_graph = Inr g"
    and e: "edges g = [[''A'', ''B''], [''A'', ''C''], [''B'', ''D''], [''C'', ''D'']]"
    and a: "ancestry_of g ''D'' = [[''B''], [''C'']]" "ancestry_of g ''B'' = [[''A'']]"
    by blast
  from remove_edge_effect [of "[''B'', ''D'']" g] show ?thesis
    unfolding g using e a by simp
qed

section \<open>Lineages\<close>

lemma get_roots_iff:
  assumes "distinct (node_ids g)"
  shows "x \<in> set (get_roots g) \<longleftrightarrow> x \<in> set (node_ids g) \<and> ancestry_of g x = []"
proof -
  have "x \<in> set (get_roots g) \<longleftrightarrow> (\<exists>n. (x, n) \<in> set (nodes g) \<and> ancestry n = [])"
    by (force simp: get_roots_def)
  also have "\<dots> \<longleftrightarrow> (\<exists>n. map_of (nodes g) x = Some n \<and> ancestry n = [])"
    using assms by (simp add: node_ids_def)
  also have "\<dots> \<longleftrightarrow> x \<in> set (node_ids g) \<and> ancestry_of g x = []"
    by (auto simp: stored_iff ancestry_of_def)
  finally show ?thesis .
qed

lemma get_ancestries_paths_results:
  assumes "\<forall>p \<in> set ps. p \<noteq> [] \<and> get_ancestries d g (last p) = Inr (M p)"
  shows "get_ancestries_paths d g ps = Inr (concat (map (\<lambda>p. map (\<lambda>q. p @ q) (M p)) ps))"
  using assms by (induction ps) auto

lemma get_ancestries_stored:
  "get_ancestries (Suc d) g x =
     (case map_of (nodes g) x of
        None \<Rightarrow> Inl KeyError
      | Some n \<Rightarrow> if ancestry_of g x = [] then Inr [[]] else get_ancestries_paths d g (ancestry_of g x))"
  by (simp add: ancestry_of_def split: option.splits)

lemma get_ancestry_root:
  assumes "distinct (node_ids g)" and "x \<in> set (node_ids g)" and "ancestry_of g x = []"
  shows "get_ancestry d g x = Inr [[x]]"
  using assms by (simp add: get_ancestry_def get_roots_iff)

lemma get_ancestry_inner:
  assumes "distinct (node_ids g)" and "get_ancestry (Suc d) g x = Inr L"
  shows "get_ancestries (Suc d) g x = Inr (map tl L)"
proof (cases "x \<in> set (get_roots g)")
  case True
  then have "x \<in> set (node_ids g)" "ancestry_of g x = []"
    using assms(1) by (simp_all add: get_roots_iff)
  moreover from this obtain n where "map_of (nodes g) x = Some n" by (auto simp: stored_iff)
  moreover have "L = [[x]]" using assms(2) True by (simp add: get_ancestry_def)
  ultimately show ?thesis by (simp add: ancestry_of_def)
next
  case False
  then show ?thesis
    using assms(2) by (auto simp: get_ancestry_def comp_def split: sum.splits)
qed


lemma get_ancestry_step:
  assumes dk: "distinct (node_ids g)"
    and ne: "ancestry_of g x \<noteq> []"
    and sub: "\<forall>p \<in> set (ancestry_of g x). p \<noteq> [] \<and> get_ancestry (Suc d) g (last p) = Inr (L p)"
  shows "get_ancestry (Suc (Suc d)) g x =
           Inr (concat (map (\<lambda>p. map (\<lambda>q. x # p @ tl q) (L p)) (ancestry_of g x)))"
proof -
  from ne have st: "x \<in> set (node_ids g)"
    using ancestry_of_not_stored by blast
  then obtain n where n: "map_of (nodes g) x = Some n" by (auto simp: stored_iff)
  have nr: "x \<notin> set (get_roots g)"
    using ne dk by (simp add: get_roots_iff)
  have "\<forall>p \<in> set (ancestry_of g x). p \<noteq> [] \<and> get_ancestries (Suc d) g (last p) = Inr (map tl (L p))"
    using sub get_ancestry_inner [OF dk] by blast
  from get_ancestries_paths_results [OF this]
  have "get_ancestries_paths (Suc d) g (ancestry_of g x) =
          Inr (concat (map (\<lambda>p. map (\<lambda>q. p @ q) (map tl (L p))) (ancestry_of g x)))" .
  then have "get_ancestries (Suc (Suc d)) g x =
          Inr (concat (map (\<lambda>p. map (\<lambda>q. p @ q) (map tl (L p))) (ancestry_of g x)))"
    using n ne by (simp add: get_ancestries_stored del: get_ancestries.simps)
  then show ?thesis
    using nr by (simp add: get_ancestry_def map_concat comp_def)
qed

lemma get_ancestries_end_at_roots:
  "(get_ancestries d g x = Inr P \<longrightarrow>
      P \<noteq> [] \<and> (\<forall>q \<in> set P. ancestry_of g (last (x # q)) = [] \<and> last (x # q) \<in> set (node_ids g))) \<and>
   (get_ancestries_paths d g ps = Inr P \<longrightarrow>
      (ps \<noteq> [] \<longrightarrow> P \<noteq> []) \<and>
      (\<forall>q \<in> set P. q \<noteq> [] \<and> ancestry_of g (last q) = [] \<and> last q \<in> set (node_ids g)))"
proof (induction d arbitrary: x P ps)
  case 0
  show ?case
  proof (induction ps arbitrary: P)
    case Nil show ?case by simp
  next
    case (Cons p ps) show ?case by simp
  qed
next
  case (Suc d)
  have paths: "get_ancestries_paths d g ps = Inr P \<longrightarrow>
      (ps \<noteq> [] \<longrightarrow> P \<noteq> []) \<and>
      (\<forall>q \<in> set P. q \<noteq> [] \<and> ancestry_of g (last q) = [] \<and> last q \<in> set (node_ids g))" for ps P
    using Suc.IH by blast
  have node: "get_ancestries (Suc d) g x = Inr P \<longrightarrow>
      P \<noteq> [] \<and> (\<forall>q \<in> set P. ancestry_of g (last (x # q)) = [] \<and> last (x # q) \<in> set (node_ids g))" for x P
  proof
    assume a: "get_ancestries (Suc d) g x = Inr P"
    then obtain n where n: "map_of (nodes g) x = Some n"
      by (auto split: option.splits)
    show "P \<noteq> [] \<and> (\<forall>q \<in> set P. ancestry_of g (last (x # q)) = [] \<and> last (x # q) \<in> set (node_ids g))"
    proof (cases "ancestry n = []")
      case True
      then show ?thesis using a n by (auto simp: ancestry_of_def stored_iff)
    next
      case False
      then have "get_ancestries_paths d g (ancestry n) = Inr P" using a n by simp
      with paths [of "ancestry n" P] False show ?thesis by auto
    qed
  qed
  have paths': "get_ancestries_paths (Suc d) g ps = Inr P \<longrightarrow>
      (ps \<noteq> [] \<longrightarrow> P \<noteq> []) \<and>
      (\<forall>q \<in> set P. q \<noteq> [] \<and> ancestry_of g (last q) = [] \<and> last q \<in> set (node_ids g))" for ps P
  proof (induction ps arbitrary: P)
    case Nil
    show ?case by auto
  next
    case (Cons p ps)
    show ?case
    proof
      assume a: "get_ancestries_paths (Suc d) g (p # ps) = Inr P"
      then have pne: "p \<noteq> []" by (auto split: if_splits)
      from a pne obtain P1 P2 where P1: "get_ancestries (Suc d) g (last p) = Inr P1"
        and P2: "get_ancestries_paths (Suc d) g ps = Inr P2"
        and P: "P = map (\<lambda>pa. p @ pa) P1 @ P2"
        by (auto split: sum.splits)
      from node P1 have n1: "P1 \<noteq> []"
        "\<forall>q \<in> set P1. ancestry_of g (last (last p # q)) = [] \<and> last (last p # q) \<in> set (node_ids g)"
        by blast+
      from Cons.IH P2 have n2:
        "\<forall>q \<in> set P2. q \<noteq> [] \<and> ancestry_of g (last q) = [] \<and> last q \<in> set (node_ids g)"
        by blast
      have "\<forall>q \<in> set P1. last (p @ q) = last (last p # q)"
        using pne by (auto simp: last_append)
      then show "(p # ps \<noteq> [] \<longrightarrow> P \<noteq> []) \<and>
          (\<forall>q \<in> set P. q \<noteq> [] \<and> ancestry_of g (last q) = [] \<and> last q \<in> set (node_ids g))"
        using n1 n2 pne unfolding P by auto
    qed
  qed
  from node paths' show ?case by blast
qed


lemma get_ancestry_ends_at_roots:
  assumes dk: "distinct (node_ids g)" and r: "get_ancestry d g x = Inr ls"
  shows "ls \<noteq> [] \<and> (\<forall>l \<in> set ls. hd l = x \<and> last l \<in> set (get_roots g))"
proof (cases "x \<in> set (get_roots g)")
  case True
  then show ?thesis using r by (auto simp: get_ancestry_def)
next
  case False
  then obtain P where P: "get_ancestries d g x = Inr P" and ls: "ls = map (\<lambda>path. x # path) P"
    using r by (auto simp: get_ancestry_def split: sum.splits)
  from get_ancestries_end_at_roots [of d g x P "[]"] P
  have "P \<noteq> []"
    "\<forall>q \<in> set P. ancestry_of g (last (x # q)) = [] \<and> last (x # q) \<in> set (node_ids g)"
    by blast+
  then show ?thesis
    unfolding ls using dk by (auto simp: get_roots_iff)
qed

lemma built_conj:
  "(case r of Inl err \<Rightarrow> False | Inr g \<Rightarrow> P g) \<Longrightarrow>
   (case r of Inl err \<Rightarrow> False | Inr g \<Rightarrow> Q g) \<Longrightarrow>
   (case r of Inl err \<Rightarrow> False | Inr g \<Rightarrow> P g \<and> Q g)"
  by (cases r) auto

text \<open>
  Claim C2, as stated, fails on the three-node cycle \<open>A \<rightarrow> B\<close>, \<open>B \<rightarrow> C\<close>, \<open>C \<rightarrow> A\<close>:
  every node has a non-empty ancestry, the recursion of \<open>_get_ancestries\<close> never
  reaches a root, and \<open>get_ancestry\<close> raises \<open>RecursionError\<close> whatever the recursion
  limit, for a stored identifier.
\<close>

lemma three_cycle_value:
  "three_cycle_graph =
     Inr \<lparr>nodes = [(''A'', \<lparr>content = ''a'', metadata = [], ancestry = [[''C'']]\<rparr>),
                   (''B'', \<lparr>content = ''b'', metadata = [], ancestry = [[''A'']]\<rparr>),
                   (''C'', \<lparr>content = ''c'', metadata = [], ancestry = [[''B'']]\<rparr>)],
          edges = [[''A'', ''B''], [''B'', ''C''], [''C'', ''A'']]\<rparr>"
  by code_simp

lemma three_cycle_recursion:
  fixes G :: "(string, unit) graph"
  assumes "G = \<lparr>nodes = [(''A'', \<lparr>content = ''a'', metadata = [], ancestry = [[''C'']]\<rparr>),
                   (''B'', \<lparr>content = ''b'', metadata = [], ancestry = [[''A'']]\<rparr>),
                   (''C'', \<lparr>content = ''c'', metadata = [], ancestry = [[''B'']]\<rparr>)],
          edges = [[''A'', ''B''], [''B'', ''C''], [''C'', ''A'']]\<rparr>"
  shows "get_ancestry d G ''A'' = Inl RecursionError"
    and "get_ancestry d G ''B'' = Inl RecursionError"
    and "get_ancestry d G ''C'' = Inl RecursionError"
proof -
  have rec: "get_ancestries d G ''A'' = Inl RecursionError \<and>
             get_ancestries d G ''B'' = Inl RecursionError \<and>
             get_ancestries d G ''C'' = Inl RecursionError" for d
    unfolding assms by (induction d) simp_all
  have "get_roots G = []" unfolding assms by (simp add: get_roots_def)
  then show "get_ancestry d G ''A'' = Inl RecursionError"
    "get_ancestry d G ''B'' = Inl RecursionError"
    "get_ancestry d G ''C'' = Inl RecursionError"
    using rec [of d] by (simp_all add: get_ancestry_def)
qed

theorem get_ancestry_never_returns_on_cycle:
  "case three_cycle_graph of
     Inl err \<Rightarrow> False
   | Inr g \<Rightarrow> ''A'' \<in> set (node_ids g) \<and> (\<forall>d. get_ancestry d g ''A'' = Inl RecursionError)"
  unfolding three_cycle_value
  by (simp add: three_cycle_recursion(1) [OF refl]) (simp add: node_ids_def)

text \<open>
  Claim C2, amended. In a graph (a node dict has distinct keys): for a stored root,
  \<open>get_ancestry\<close> returns \<open>[[id]]\<close>; for a node with ancestry entries, when every
  entry \<open>p\<close> is non-empty and the call on the last element of \<open>p\<close> returns the lineages
  \<open>L p\<close>, the call (with one more level of recursion available) returns, for each
  entry \<open>p\<close> in order and each \<open>q\<close> of \<open>L p\<close> in order, the path
  \<open>[id] + p + q[1:]\<close>; whenever \<open>get_ancestry\<close> returns, the result is non-empty and
  each lineage starts at the node and ends at a root. In the diamond, \<open>get_ancestry(D)\<close>
  is \<open>[[D, B, A], [D, C, A]]\<close>.
\<close>

theorem get_ancestry_enumerates_lineages:
  assumes "distinct (node_ids g)"
  shows "(node_id \<in> set (node_ids g) \<and> ancestry_of g node_id = [] \<longrightarrow>
            get_ancestry d g node_id = Inr [[node_id]]) \<and>
         (ancestry_of g node_id \<noteq> [] \<and>
          (\<forall>p \<in> set (ancestry_of g node_id).
              p \<noteq> [] \<and> get_ancestry (Suc d) g (last p) = Inr (L p)) \<longrightarrow>
            get_ancestry (Suc (Suc d)) g node_id =
              Inr (concat (map (\<lambda>p. map (\<lambda>q. node_id # p @ tl q) (L p))
                             (ancestry_of g node_id)))) \<and>
         (get_ancestry d g node_id = Inr ls \<longrightarrow>
            ls \<noteq> [] \<and> (\<forall>l \<in> set ls. hd l = node_id \<and> last l \<in> set (get_roots g))) \<and>
         (case diamond_graph of
            Inl err \<Rightarrow> False
          | Inr t \<Rightarrow> get_ancestry 1000 t ''D'' =
                      Inr [[''D'', ''B'', ''A''], [''D'', ''C'', ''A'']])"
proof (intro conjI impI)
  show "get_ancestry d g node_id = Inr [[node_id]]"
    if "node_id \<in> set (node_ids g) \<and> ancestry_of g node_id = []"
    using that assms by (simp add: get_ancestry_root)
  show "get_ancestry (Suc (Suc d)) g node_id =
          Inr (concat (map (\<lambda>p. map (\<lambda>q. node_id # p @ tl q) (L p)) (ancestry_of g node_id)))"
    if "ancestry_of g node_id \<noteq> [] \<and>
        (\<forall>p \<in> set (ancestry_of g node_id). p \<noteq> [] \<and> get_ancestry (Suc d) g (last p) = Inr (L p))"
    using that get_ancestry_step [OF assms, of node_id d L] by blast
  show "ls \<noteq> []" if "get_ancestry d g node_id = Inr ls"
    using get_ancestry_ends_at_roots [OF assms that] by blast
  show "\<forall>l \<in> set ls. hd l = node_id \<and> last l \<in> set (get_roots g)"
    if "get_ancestry d g node_id = Inr ls"
    using get_ancestry_ends_at_roots [OF assms that] by blast
  show "case diamond_graph of
          Inl err \<Rightarrow> False
        | Inr t \<Rightarrow> get_ancestry 1000 t ''D'' = Inr [[''D'', ''B'', ''A''], [''D'', ''C'', ''A'']]"
    by code_simp
qed

theorem get_ancestry_enumerates_lineages_witness:
  "case diamond_graph of
     Inl err \<Rightarrow> False
   | Inr g \<Rightarrow> distinct (node_ids g) \<and> ancestry_of g ''D'' = [[''B''], [''C'']] \<and>
              ancestry_of g ''A'' = [] \<and>
              get_ancestry 0 g ''A'' = Inr [[''A'']] \<and>
              get_ancestry (Suc (Suc 0)) g ''B'' = Inr [[''B'', ''A'']] \<and>
              get_ancestry (Suc (Suc 0)) g ''C'' = Inr [[''C'', ''A'']] \<and>
              get_ancestry (Suc (Suc (Suc 0))) g ''D'' =
                Inr [[''D'', ''B'', ''A''], [''D'', ''C'', ''A'']]"
proof -
  have f1: "case diamond_graph of Inl err \<Rightarrow> False | Inr g \<Rightarrow> distinct (node_ids g)"
    by code_simp
  have f2: "case diamond_graph of Inl err \<Rightarrow> False
            | Inr g \<Rightarrow> ancestry_of g ''D'' = [[''B''], [''C'']]"
    by code_simp
  have f3: "case diamond_graph of Inl err \<Rightarrow> False | Inr g \<Rightarrow> ancestry_of g ''A'' = []"
    by code_simp
  have f4: "case diamond_graph of Inl err \<Rightarrow> False | Inr g \<Rightarrow> ''A'' \<in> set (node_ids g)"
    by code_simp
  have f5: "case diamond_graph of Inl err \<Rightarrow> False
            | Inr g \<Rightarrow> get_ancestry (Suc (Suc 0)) g ''B'' = Inr [[''B'', ''A'']]"
    by code_simp
  have f6: "case diamond_graph of Inl err \<Rightarrow> False
            | Inr g \<Rightarrow> get_ancestry (Suc (Suc 0)) g ''C'' = Inr [[''C'', ''A'']]"
    by code_simp
  from built_obtain [OF built_conj [OF f1 built_conj [OF f2 built_conj [OF f3
         built_conj [OF f4 built_conj [OF f5 f6]]]]]]
  obtain g where g: "diamond_graph = Inr g" and dk: "distinct (node_ids g)"
    and d: "ancestry_of g ''D'' = [[''B''], [''C'']]"
    and a: "ancestry_of g ''A'' = []" "''A'' \<in> set (node_ids g)"
    and b: "get_ancestry (Suc (Suc 0)) g ''B'' = Inr [[''B'', ''A'']]"
    and c: "get_ancestry (Suc (Suc 0)) g ''C'' = Inr [[''C'', ''A'']]"
    by blast
  let ?L = "\<lambda>p. [[hd p, ''A'']]"
  have sub: "\<forall>p \<in> set (ancestry_of g ''D'').
               p \<noteq> [] \<and> get_ancestry (Suc (Suc 0)) g (last p) = Inr (?L p)"
    by (simp add: d b c)
  have root: "get_ancestry 0 g ''A'' = Inr [[''A'']]"
  proof -
    have pre: "''A'' \<in> set (node_ids g) \<and> ancestry_of g ''A'' = []" using a by simp
    from get_ancestry_enumerates_lineages
           [OF dk, where node_id = "''A''" and d = 0 and L = ?L and ls = "[]",
            THEN conjunct1, THEN mp, OF pre]
    show ?thesis .
  qed
  have pre: "ancestry_of g ''D'' \<noteq> [] \<and>
             (\<forall>p \<in> set (ancestry_of g ''D'').
                p \<noteq> [] \<and> get_ancestry (Suc (Suc 0)) g (last p) = Inr (?L p))"
    using sub d by simp
  from get_ancestry_enumerates_lineages
         [OF dk, where node_id = "''D''" and d = "Suc 0" and L = ?L and ls = "[]",
          THEN conjunct2, THEN conjunct1, THEN mp, OF pre]
  have "get_ancestry (Suc (Suc (Suc 0))) g ''D'' =
          Inr (concat (map (\<lambda>p. map (\<lambda>q. ''D'' # p @ tl q) (?L p)) (ancestry_of g ''D'')))" .
  then have main: "get_ancestry (Suc (Suc (Suc 0))) g ''D'' =
                Inr [[''D'', ''B'', ''A''], [''D'', ''C'', ''A'']]"
    by (simp add: d)
  show ?thesis
    unfolding g by (simp only: sum.case dk d a b c root main simp_thms)
qed

section \<open>Common ancestors\<close>

lemma intersect_lineages_Some:
  assumes "\<forall>xs. set (set_order xs) = set xs"
  shows "\<exists>r. intersect_lineages set_order (Some m) ls = Some r \<and>
             set r = set m \<inter> (\<Inter>l \<in> set ls. set l)"
proof (induction ls arbitrary: m)
  case Nil
  show ?case by simp
next
  case (Cons l ls)
  let ?m' = "set_order (remdups (filter (\<lambda>x. x \<in> set l) m))"
  from Cons.IH [of ?m'] obtain r where
    r: "intersect_lineages set_order (Some ?m') ls = Some r"
       "set r = set ?m' \<inter> (\<Inter>l \<in> set ls. set l)"
    by blast
  have "set ?m' = set m \<inter> set l" using assms by auto
  then show ?case using r by auto
qed

lemma intersect_lineages_any:
  assumes "\<forall>xs. set (set_order xs) = set xs" and "ls \<noteq> []"
  shows "\<exists>r. intersect_lineages set_order mc ls = Some r \<and>
             set r = (case mc of None \<Rightarrow> UNIV | Some m \<Rightarrow> set m) \<inter> (\<Inter>l \<in> set ls. set l)"
proof (cases mc)
  case (Some m)
  then show ?thesis using intersect_lineages_Some [OF assms(1), of m ls] by simp
next
  case None
  from assms(2) obtain l ls' where ls: "ls = l # ls'" by (cases ls) auto
  from intersect_lineages_Some [OF assms(1), of l ls'] show ?thesis
    unfolding None ls by auto
qed

lemma common_ancestor_loop_result:
  assumes so: "\<forall>xs. set (set_order xs) = set xs"
    and ret: "\<forall>i \<in> set ids. get_ancestry d g i = Inr (L i) \<and> L i \<noteq> []"
    and start: "ids \<noteq> [] \<or> mc \<noteq> None"
  shows "\<exists>r. common_ancestor_loop set_order d g ids mc = Inr (Some r) \<and>
             set r = (case mc of None \<Rightarrow> UNIV | Some m \<Rightarrow> set m) \<inter>
                     (\<Inter>i \<in> set ids. \<Inter>l \<in> set (L i). set l)"
  using ret start
proof (induction ids arbitrary: mc)
  case Nil
  then show ?case by auto
next
  case (Cons i ids)
  from Cons.prems(1) have gi: "get_ancestry d g i = Inr (L i)" and ne: "L i \<noteq> []" by auto
  from intersect_lineages_any [OF so ne, of mc] obtain m' where
    m': "intersect_lineages set_order mc (L i) = Some m'"
        "set m' = (case mc of None \<Rightarrow> UNIV | Some m \<Rightarrow> set m) \<inter> (\<Inter>l \<in> set (L i). set l)"
    by blast
  from Cons.prems(1) have "\<forall>j \<in> set ids. get_ancestry d g j = Inr (L j) \<and> L j \<noteq> []" by simp
  from Cons.IH [OF this, of "Some m'"] obtain r where
    r: "common_ancestor_loop set_order d g ids (Some m') = Inr (Some r)"
       "set r = set m' \<inter> (\<Inter>i \<in> set ids. \<Inter>l \<in> set (L i). set l)"
    by auto
  have "common_ancestor_loop set_order d g (i # ids) mc = Inr (Some r)"
    using gi m'(1) r(1) by simp
  moreover have "set r = (case mc of None \<Rightarrow> UNIV | Some m \<Rightarrow> set m) \<inter>
                     (\<Inter>i \<in> set (i # ids). \<Inter>l \<in> set (L i). set l)"
    unfolding r(2) m'(2) by auto
  ultimately show ?case by blast
qed

lemma last_sorted_key_max:
  "sorted (map f ys) \<Longrightarrow> x \<in> set ys \<Longrightarrow> f x \<le> f (last ys)"
  by (induction ys) auto

lemma common_ancestor_result:
  assumes so: "\<forall>xs. set (set_order xs) = set xs"
    and dk: "distinct (node_ids g)"
    and ne: "ids \<noteq> []"
    and ret: "\<forall>i \<in> set ids. get_ancestry d g i = Inr (L i)"
    and st: "\<forall>i \<in> set ids. \<forall>l \<in> set (L i). set l \<subseteq> set (node_ids g)"
  shows "((\<Inter>i \<in> set ids. \<Inter>l \<in> set (L i). set l) = {} \<longrightarrow>
            common_ancestor set_order d g ids = Inr None) \<and>
         ((\<Inter>i \<in> set ids. \<Inter>l \<in> set (L i). set l) - set ids \<noteq> {} \<longrightarrow>
            (\<exists>r. common_ancestor set_order d g ids = Inr (Some r) \<and>
                 r \<in> (\<Inter>i \<in> set ids. \<Inter>l \<in> set (L i). set l) - set ids \<and>
                 (\<forall>x \<in> (\<Inter>i \<in> set ids. \<Inter>l \<in> set (L i). set l) - set ids.
                     length (ancestry_of g x) \<le> length (ancestry_of g r))))"
proof -
  let ?I = "\<Inter>i \<in> set ids. \<Inter>l \<in> set (L i). set l"
  let ?f = "\<lambda>x. length (ancestry_of g x)"
  have "\<forall>i \<in> set ids. get_ancestry d g i = Inr (L i) \<and> L i \<noteq> []"
    using ret get_ancestry_ends_at_roots [OF dk] by blast
  from common_ancestor_loop_result [OF so this, of None] ne
  obtain m where m: "common_ancestor_loop set_order d g ids None = Inr (Some m)" "set m = ?I"
    by auto
  obtain i where i: "i \<in> set ids" using ne by (cases ids) auto
  then have "L i \<noteq> []" using ret get_ancestry_ends_at_roots [OF dk] by blast
  then obtain l where "l \<in> set (L i)" by (cases "L i") auto
  then have "?I \<subseteq> set l" "set l \<subseteq> set (node_ids g)" using i st by auto
  then have stored: "set m \<subseteq> set (node_ids g)" using m(2) by simp
  let ?s = "sort_key ?f m"
  have ca: "common_ancestor set_order d g ids =
          (if ?s \<noteq> []
           then (case filter (\<lambda>x. x \<notin> set ids) ?s of
                   [] \<Rightarrow> Inl IndexError
                 | y # ys \<Rightarrow> Inr (Some (last (y # ys))))
           else Inr None)"
    using m(1) stored by (simp add: common_ancestor_def)
  have empty: "?I = {} \<longrightarrow> common_ancestor set_order d g ids = Inr None"
    using m(2) ca by auto
  have nonempty: "\<exists>r. common_ancestor set_order d g ids = Inr (Some r) \<and> r \<in> ?I - set ids \<and>
             (\<forall>x \<in> ?I - set ids. ?f x \<le> ?f r)" if rest: "?I - set ids \<noteq> {}"
  proof -
    let ?ys = "filter (\<lambda>x. x \<notin> set ids) ?s"
    have sets: "set ?ys = ?I - set ids" using m(2) by auto
    have yne: "?ys \<noteq> []" using rest sets by (metis list.set(1))
    then have sne: "?s \<noteq> []" by auto
    have "sorted (map ?f ?ys)" by (rule sorted_filter) simp
    then have mx: "\<forall>x \<in> set ?ys. ?f x \<le> ?f (last ?ys)"
      using last_sorted_key_max [of ?f ?ys] by blast
    have "common_ancestor set_order d g ids = Inr (Some (last ?ys))"
      using ca sne yne by (cases ?ys) auto
    moreover have "last ?ys \<in> set ?ys" using yne by (rule last_in_set)
    ultimately show ?thesis using mx unfolding sets by blast
  qed
  from empty nonempty show ?thesis by blast
qed

text \<open>
  Claim C3, as stated, fails: the code does not unite the lineages of a queried node
  before intersecting, it intersects every single lineage of every queried node. In
  the diamond with a second child \<open>E\<close> of \<open>B\<close>, the lineages of \<open>D\<close> are
  \<open>[D, B, A]\<close> and \<open>[D, C, A]\<close> and the lineage of \<open>E\<close> is \<open>[E, B, A]\<close>. The
  claim's computation (union per node, then intersection) leaves \<open>{A, B}\<close> and
  selects \<open>B\<close>, which has more ancestry entries than \<open>A\<close>; \<open>common_ancestor([D, E])\<close>
  returns \<open>A\<close>, whatever the enumeration order of sets.
\<close>

theorem common_ancestor_intersects_every_lineage:
  "case diamond_tail_graph of
     Inl err \<Rightarrow> False
   | Inr g \<Rightarrow>
       get_ancestry 1000 g ''D'' = Inr [[''D'', ''B'', ''A''], [''D'', ''C'', ''A'']] \<and>
       get_ancestry 1000 g ''E'' = Inr [[''E'', ''B'', ''A'']] \<and>
       union_common_ancestors 1000 g [''D'', ''E''] = Inr [''B''] \<and>
       common_ancestor (\<lambda>xs. xs) 1000 g [''D'', ''E''] = Inr (Some ''A'') \<and>
       (\<forall>set_order. (\<forall>xs. set (set_order xs) = set xs) \<longrightarrow>
          common_ancestor set_order 1000 g [''D'', ''E''] = Inr (Some ''A''))"
proof -
  have f1: "case diamond_tail_graph of Inl err \<Rightarrow> False | Inr g \<Rightarrow>
       get_ancestry 1000 g ''D'' = Inr [[''D'', ''B'', ''A''], [''D'', ''C'', ''A'']]"
    by code_simp
  have f2: "case diamond_tail_graph of Inl err \<Rightarrow> False | Inr g \<Rightarrow>
       get_ancestry 1000 g ''E'' = Inr [[''E'', ''B'', ''A'']]"
    by code_simp
  have f3: "case diamond_tail_graph of Inl err \<Rightarrow> False | Inr g \<Rightarrow>
       union_common_ancestors 1000 g [''D'', ''E''] = Inr [''B'']"
    by code_simp
  have f4: "case diamond_tail_graph of Inl err \<Rightarrow> False | Inr g \<Rightarrow>
       common_ancestor (\<lambda>xs. xs) 1000 g [''D'', ''E''] = Inr (Some ''A'')"
    by code_simp
  have f5: "case diamond_tail_graph of Inl err \<Rightarrow> False | Inr g \<Rightarrow>
       node_ids g = [''A'', ''B'', ''C'', ''D'', ''E'']"
    by code_simp
  from built_obtain [OF built_conj [OF f1 built_conj [OF f2 built_conj [OF f3
         built_conj [OF f4 f5]]]]]
  obtain g where g: "diamond_tail_graph = Inr g"
    and d: "get_ancestry 1000 g ''D'' = Inr [[''D'', ''B'', ''A''], [''D'', ''C'', ''A'']]"
    and e: "get_ancestry 1000 g ''E'' = Inr [[''E'', ''B'', ''A'']]"
    and u: "union_common_ancestors 1000 g [''D'', ''E''] = Inr [''B'']"
    and c: "common_ancestor (\<lambda>xs. xs) 1000 g [''D'', ''E''] = Inr (Some ''A'')"
    and ids: "node_ids g = [''A'', ''B'', ''C'', ''D'', ''E'']"
    by blast
  let ?L = "\<lambda>i. if i = ''D'' then [[''D'', ''B'', ''A''], [''D'', ''C'', ''A'']]
                 else [[''E'', ''B'', ''A'']]"
  let ?ids = "[''D'', ''E'']"
  have any: "common_ancestor set_order 1000 g ?ids = Inr (Some ''A'')"
    if so: "\<forall>xs. set (set_order xs) = set xs" for set_order
  proof -
    have dk: "distinct (node_ids g)" by (simp add: ids)
    have ne: "?ids \<noteq> []" by simp
    have ret: "\<forall>i \<in> set ?ids. get_ancestry 1000 g i = Inr (?L i)" by (simp add: d e)
    have st: "\<forall>i \<in> set ?ids. \<forall>l \<in> set (?L i). set l \<subseteq> set (node_ids g)"
      by (simp add: ids)
    have I: "(\<Inter>i \<in> set ?ids. \<Inter>l \<in> set (?L i). set l) - set ?ids = {''A''}" by auto
    from common_ancestor_result [OF so dk ne ret st, THEN conjunct2] I
    show ?thesis by auto
  qed
  show ?thesis
    unfolding g using d e u c any by simp
qed

text \<open>
  Claim C3, amended. For a non-empty list of queried identifiers on which
  \<open>get_ancestry\<close> returns, with every identifier of the returned lineages stored,
  \<open>common_ancestor\<close> intersects the identifier sets of all lineages of all queried
  nodes. When that intersection is empty it returns the sentinel \<open>None\<close>; when the
  intersection without the queried identifiers is non-empty it returns one of its
  members, and no member has more ancestry entries than the one returned. This holds
  for every enumeration order of sets. In the diamond, \<open>common_ancestor([B, C])\<close> is
  \<open>A\<close>.
\<close>

theorem common_ancestor_of_all_lineages:
  assumes "\<forall>xs. set (set_order xs) = set xs"
    and "distinct (node_ids g)"
    and "ids \<noteq> []"
    and "\<forall>i \<in> set ids. get_ancestry d g i = Inr (L i)"
    and "\<forall>i \<in> set ids. \<forall>l \<in> set (L i). set l \<subseteq> set (node_ids g)"
  shows "((\<Inter>i \<in> set ids. \<Inter>l \<in> set (L i). set l) = {} \<longrightarrow>
            common_ancestor set_order d g ids = Inr None) \<and>
         ((\<Inter>i \<in> set ids. \<Inter>l \<in> set (L i). set l) - set ids \<noteq> {} \<longrightarrow>
            (\<exists>r. common_ancestor set_order d g ids = Inr (Some r) \<and>
                 r \<in> (\<Inter>i \<in> set ids. \<Inter>l \<in> set (L i). set l) - set ids \<and>
                 (\<forall>x \<in> (\<Inter>i \<in> set ids. \<Inter>l \<in> set (L i). set l) - set ids.
                     length (ancestry_of g x) \<le> length (ancestry_of g r)))) \<and>
         (case diamond_graph of
            Inl err \<Rightarrow> False
          | Inr t \<Rightarrow> common_ancestor (\<lambda>xs. xs) 1000 t [''B'', ''C''] = Inr (Some ''A''))"
proof -
  have "case diamond_graph of
            Inl err \<Rightarrow> False
          | Inr t \<Rightarrow> common_ancestor (\<lambda>xs. xs) 1000 t [''B'', ''C''] = Inr (Some ''A'')"
    by code_simp
  with common_ancestor_result [OF assms] show ?thesis by (intro conjI) blast+
qed

theorem common_ancestor_of_all_lineages_witness:
  "case diamond_graph of
     Inl err \<Rightarrow> False
   | Inr g \<Rightarrow> distinct (node_ids g) \<and>
              get_ancestry 1000 g ''B'' = Inr [[''B'', ''A'']] \<and>
              get_ancestry 1000 g ''C'' = Inr [[''C'', ''A'']] \<and>
              common_ancestor (\<lambda>xs. xs) 1000 g [''B'', ''C''] = Inr (Some ''A'')"
proof -
  have f1: "case diamond_graph of Inl err \<Rightarrow> False | Inr g \<Rightarrow>
       get_ancestry 1000 g ''B'' = Inr [[''B'', ''A'']]"
    by code_simp
  have f2: "case diamond_graph of Inl err \<Rightarrow> False | Inr g \<Rightarrow>
       get_ancestry 1000 g ''C'' = Inr [[''C'', ''A'']]"
    by code_simp
  have f3: "case diamond_graph of Inl err \<Rightarrow> False | Inr g \<Rightarrow>
       node_ids g = [''A'', ''B'', ''C'', ''D'']"
    by code_simp
  from built_obtain [OF built_conj [OF f1 built_conj [OF f2 f3]]]
  obtain g where g: "diamond_graph = Inr g"
    and b: "get_ancestry 1000 g ''B'' = Inr [[''B'', ''A'']]"
    and c: "get_ancestry 1000 g ''C'' = Inr [[''C'', ''A'']]"
    and ids: "node_ids g = [''A'', ''B'', ''C'', ''D'']"
    by blast
  let ?L = "\<lambda>i. [[i, ''A'']]"
  let ?ids = "[''B'', ''C'']"
  let ?so = "\<lambda>xs :: string list. xs"
  have so: "\<forall>xs. set (?so xs) = set xs" by simp
  have dk: "distinct (node_ids g)" by (simp add: ids)
  have ne: "?ids \<noteq> []" by simp
  have ret: "\<forall>i \<in> set ?ids. get_ancestry 1000 g i = Inr (?L i)" by (simp add: b c)
  have st: "\<forall>i \<in> set ?ids. \<forall>l \<in> set (?L i). set l \<subseteq> set (node_ids g)"
    by (simp add: ids)
  have I: "(\<Inter>i \<in> set ?ids. \<Inter>l \<in> set (?L i). set l) - set ?ids = {''A''}" by auto
  then have pre: "(\<Inter>i \<in> set ?ids. \<Inter>l \<in> set (?L i). set l) - set ?ids \<noteq> {}" by simp
  from common_ancestor_of_all_lineages
         [where set_order = ?so and g = g and ids = ?ids and d = 1000 and L = ?L,
          OF so dk ne ret st, THEN conjunct2, THEN conjunct1, THEN mp, OF pre]
  obtain r where "common_ancestor ?so 1000 g ?ids = Inr (Some r)"
    and "r \<in> (\<Inter>i \<in> set ?ids. \<Inter>l \<in> set (?L i). set l) - set ?ids"
    by blast
  then have "common_ancestor ?so 1000 g ?ids = Inr (Some ''A'')"
    unfolding I by simp
  then show ?thesis
    unfolding g using dk b c by simp
qed

end
